theory Spec2Isabelle
  imports Complex_Main "HOL-Library.AList"
begin

section \<open>Errors\<close>

text \<open>
  The Python exceptions that the embedded functions can raise. A function that can
  raise returns \<open>py_error + 'a\<close>, with \<open>Inl\<close> for the exception; \<open>thenE\<close> runs the next
  statement unless an exception is under way.
\<close>

datatype py_error =
  ZeroDivisionError | IndexError | KeyError | AssertionError | ValueError | DomainError

definition thenE :: "py_error + 'a \<Rightarrow> ('a \<Rightarrow> py_error + 'b) \<Rightarrow> py_error + 'b" where
  "thenE r f = (case r of Inl e \<Rightarrow> Inl e | Inr v \<Rightarrow> f v)"

section \<open>Multi-indices\<close>

text \<open>
  Modelled from the spec: the class \<open>Multiindex\<close> (module \<open>spuq.math_utils.multiindex\<close>) is
  not among the sources. The spec describes a multi-index as a finite-support tuple of
  polynomial degrees, one non-negative degree per stochastic dimension, compared by
  support and degrees, with \<open>increment(dim)\<close> and \<open>decrement(dim)\<close>, the latter failing
  when the resulting degree would be negative. A multi-index is the list of its degrees
  without trailing zeros, so that equal supports and degrees mean equal lists; the
  constructor \<open>Multiindex\<close> strips the trailing zeros, and \<open>mu[m]\<close> is \<open>mi_get mu m\<close>,
  zero beyond the stored degrees. The operator code writes the two operations
  \<open>mu.inc(m)\<close> and \<open>mu.dec(m)\<close>. The failure of \<open>dec\<close> is the value \<open>Inl DomainError\<close>.
\<close>

type_synonym multiindex = "nat list"

definition strip_zeros :: "nat list \<Rightarrow> nat list" where
  "strip_zeros xs = rev (dropWhile (\<lambda>d. d = 0) (rev xs))"

definition Multiindex :: "nat list \<Rightarrow> multiindex" where
  "Multiindex arr = strip_zeros arr"

definition mi_get :: "multiindex \<Rightarrow> nat \<Rightarrow> nat" where
  "mi_get mu m = (if m < length mu then mu ! m else 0)"

definition mi_set :: "multiindex \<Rightarrow> nat \<Rightarrow> nat \<Rightarrow> multiindex" where
  "mi_set mu m d = strip_zeros ((mu @ replicate (Suc m - length mu) 0)[m := d])"

definition inc_mi :: "multiindex \<Rightarrow> nat \<Rightarrow> multiindex" where
  "inc_mi mu m = mi_set mu m (mi_get mu m + 1)"

definition dec_mi :: "multiindex \<Rightarrow> nat \<Rightarrow> py_error + multiindex" where
  "dec_mi mu m =
     (if int (mi_get mu m) - 1 < 0 then Inl DomainError
      else Inr (mi_set mu m (mi_get mu m - 1)))"

section \<open>The decrement as the operators call it\<close>

text \<open>
  The operator code calls \<open>mu.dec(m)\<close> with no handler around it and then tests
  \<open>mu2 in Lambda\<close>. The class is not among the sources, so the sources do not say how a
  failed decrement reaches the caller. The operators therefore take the method as a
  parameter \<open>dec\<close>: \<open>dec mu m\<close> is \<open>Inl e\<close> when the call raises \<open>e\<close>, which then passes
  through the operator like every other exception, \<open>Inr (Some nu)\<close> when it returns the
  multi-index \<open>nu\<close>, and \<open>Inr None\<close> when it returns an object that is no multi-index and
  hence no member of \<open>Lambda\<close>. \<open>dec_raising\<close> and \<open>dec_returning\<close> are the two ways in
  which the decrement of the previous section can be delivered: its failure raised, or
  returned as such an object.
\<close>

type_synonym dec_method = "multiindex \<Rightarrow> nat \<Rightarrow> py_error + multiindex option"

definition dec_raising :: dec_method where
  "dec_raising mu m = (case dec_mi mu m of Inl e \<Rightarrow> Inl e | Inr nu \<Rightarrow> Inr (Some nu))"

definition dec_returning :: dec_method where
  "dec_returning mu m = (case dec_mi mu m of Inl e \<Rightarrow> Inr None | Inr nu \<Rightarrow> Inr (Some nu))"


section \<open>Multi-vectors, coefficient fields and the finite-element collaborators\<close>

text \<open>
  Modelled from the spec: the class \<open>MultiVector\<close> (module
  \<open>spuq.application.egsz.multi_vector\<close>) is not among the sources. The spec describes it
  as a mapping from multi-index to component with unique keys, whose key set is the
  active index set, with \<open>w[mu]\<close> an error on a missing key, scalar multiplication per
  component, and \<open>max_order\<close> the highest dimension that appears with a non-zero degree.
  A multi-vector is an association list in key order. Components are values of a real
  vector space \<open>'x\<close>. Multi-vectors are mutable Python objects: they live in a heap, a
  list of objects addressed by position, and \<open>0 * w\<close> allocates a new object.
\<close>

type_synonym 'x multivector = "(multiindex \<times> 'x) list"

type_synonym 'x heap = "'x multivector list"

definition active_indices :: "'x multivector \<Rightarrow> multiindex list" where
  "active_indices w = map fst w"

definition max_order :: "'x multivector \<Rightarrow> nat" where
  "max_order w = foldr max (map (\<lambda>mu. length (strip_zeros mu)) (active_indices w)) 0"

definition getitem :: "'x multivector \<Rightarrow> multiindex \<Rightarrow> py_error + 'x" where
  "getitem w mu = (case map_of w mu of None \<Rightarrow> Inl KeyError | Some x \<Rightarrow> Inr x)"

definition setitem :: "'x multivector \<Rightarrow> multiindex \<Rightarrow> 'x \<Rightarrow> 'x multivector" where
  "setitem w mu x = AList.update mu x w"

definition rmul :: "real \<Rightarrow> ('x::real_vector) multivector \<Rightarrow> 'x multivector" where
  "rmul c w = map (\<lambda>(mu, x). (mu, c *\<^sub>R x)) w"

definition new_object :: "'x heap \<Rightarrow> 'x multivector \<Rightarrow> 'x heap \<times> nat" where
  "new_object h w = (h @ [w], length h)"

definition store :: "'x heap \<Rightarrow> nat \<Rightarrow> multiindex \<Rightarrow> 'x \<Rightarrow> 'x heap" where
  "store h va mu x = h[va := setitem (h ! va) mu x]"

text \<open>
  The coefficient field is a collaborator: its mean function, and the ordered terms
  \<open>(a_m, rv_m)\<close>, each random variable given by \<open>orth_polys.get_beta\<close>, which maps a degree
  to the triple \<open>beta\<close>; \<open>beta[0]\<close>, \<open>beta[1]\<close> and \<open>beta[-1]\<close> are its first, second and third
  entry. \<open>coeff_field[m]\<close> raises \<open>IndexError\<close> beyond the last term.
\<close>

type_synonym beta_triple = "real \<times> real \<times> real"

record 'f coefficient_field =
  mean_func :: 'f
  terms :: "('f \<times> (nat \<Rightarrow> beta_triple)) list"

definition cf_getitem :: "'f coefficient_field \<Rightarrow> nat \<Rightarrow> py_error + ('f \<times> (nat \<Rightarrow> beta_triple))" where
  "cf_getitem cf m = (if m < length (terms cf) then Inr (terms cf ! m) else Inl IndexError)"

text \<open>
  The finite-element backend is a collaborator as well: \<open>basis x\<close> is \<open>x.basis\<close>,
  \<open>project_onto V x\<close> is \<open>V.project_onto(x)\<close>, \<open>has_mesh V\<close> is \<open>hasattr(V, "mesh")\<close>,
  \<open>joint_basis_mu V Vs\<close> is \<open>V.copy(mesh=mesh)\<close> for
  \<open>mesh, _ = create_joint_mesh([U.mesh for U in Vs])\<close>, \<open>joint_basis_global V Vs\<close> is
  \<open>V.copy(mesh=create_joint_mesh([U.mesh for U in Vs]))\<close>, and \<open>shared_basis w\<close> is
  \<open>w.basis.basis\<close> of a multi-vector on one shared mesh. An assembled operator is the
  function it applies. Exceptions of the backend pass through the operator code unchanged
  and are not modelled.
\<close>

record ('b, 'x) fem =
  basis :: "'x \<Rightarrow> 'b"
  project_onto :: "'b \<Rightarrow> 'x \<Rightarrow> 'x"
  has_mesh :: "'b \<Rightarrow> bool"
  joint_basis_mu :: "'b \<Rightarrow> 'b list \<Rightarrow> 'b"
  joint_basis_global :: "'b \<Rightarrow> 'b list \<Rightarrow> 'b"
  shared_basis :: "'x multivector \<Rightarrow> 'b"

section \<open>The discrete operator (application/egsz/multi\_operator.py and multi\_operator2.py)\<close>

datatype ASSEMBLY_TYPE = MU | JOINT_MU | JOINT_GLOBAL

record ('b, 'f, 'x) multi_operator =
  coeff_field :: "'f coefficient_field"
  assemble_0 :: "'b \<Rightarrow> 'f \<Rightarrow> 'x \<Rightarrow> 'x"
  assemble_m :: "'b \<Rightarrow> 'f \<Rightarrow> 'x \<Rightarrow> 'x"
  assembly_type :: ASSEMBLY_TYPE

text \<open>\<open>MultiOperator.__init__\<close>: \<open>self._assemble_m = assemble_m or assemble_0\<close>.\<close>

definition MultiOperator ::
  "'f coefficient_field \<Rightarrow> ('b \<Rightarrow> 'f \<Rightarrow> 'x \<Rightarrow> 'x) \<Rightarrow> ('b \<Rightarrow> 'f \<Rightarrow> 'x \<Rightarrow> 'x) option \<Rightarrow>
   ASSEMBLY_TYPE \<Rightarrow> ('b, 'f, 'x) multi_operator" where
  "MultiOperator cf a0 am ty =
     \<lparr>coeff_field = cf, assemble_0 = a0,
      assemble_m = (case am of None \<Rightarrow> a0 | Some f \<Rightarrow> f), assembly_type = ty\<rparr>"

text \<open>The logger: only the warning is recorded, with its two numbers.\<close>

datatype log_record = Warning_insufficient_length nat nat

text \<open>
  \<^verbatim>\<open>
    maxm = w.max_order
    if len(self._coeff_field) < maxm:
        logger.warning("insufficient length of coefficient field ...", len(self._coeff_field), maxm)
        maxm = len(self._coeff_field)
  \<close>
\<close>

definition truncate_maxm :: "'f coefficient_field \<Rightarrow> nat \<Rightarrow> nat \<times> log_record list" where
  "truncate_maxm cf maxm =
     (if length (terms cf) < maxm
      then (length (terms cf), [Warning_insufficient_length (length (terms cf)) maxm])
      else (maxm, []))"

text \<open>A Python \<open>for\<close> loop over a list, threading the state and stopping at an exception.\<close>

fun for_loop :: "('s \<Rightarrow> 'a \<Rightarrow> py_error + 's) \<Rightarrow> 'a list \<Rightarrow> 's \<Rightarrow> py_error + 's" where
  "for_loop body [] s = Inr s"
| "for_loop body (x # xs) s = thenE (body s x) (for_loop body xs)"

text \<open>A list comprehension whose element expression can raise.\<close>

fun mapE :: "('a \<Rightarrow> py_error + 'b) \<Rightarrow> 'a list \<Rightarrow> py_error + 'b list" where
  "mapE f [] = Inr []"
| "mapE f (x # xs) = thenE (f x) (\<lambda>y. thenE (mapE f xs) (\<lambda>ys. Inr (y # ys)))"

text \<open>
  The combination for one dimension \<open>m\<close>, common to the four variants, which differ in how
  they read the components: \<open>P0\<close> is applied to \<open>w[mu]\<close> and \<open>P\<close> to a neighbour.
  \<^verbatim>\<open>
    cur_w = -beta[0] * w[mu]
    mu1 = mu.inc(m)
    if mu1 in Lambda:
        cur_w += beta[1] * w[mu1]
    mu2 = mu.dec(m)
    if mu2 in Lambda:
        cur_w += beta[-1] * w[mu2]
  \<close>
  \<open>mu.dec(m)\<close> is the parameter \<open>dec\<close>: an exception of it passes through, and a returned
  object that is no multi-index is not in \<open>Lambda\<close>.
\<close>

definition cur_w ::
  "dec_method \<Rightarrow> multiindex list \<Rightarrow> ('x::real_vector) multivector \<Rightarrow> ('x \<Rightarrow> 'x) \<Rightarrow> ('x \<Rightarrow> 'x) \<Rightarrow>
   beta_triple \<Rightarrow> multiindex \<Rightarrow> nat \<Rightarrow> py_error + 'x" where
  "cur_w dec Lambda w P0 P beta mu m =
     thenE (getitem w mu) (\<lambda>wmu.
     thenE (if inc_mi mu m \<in> set Lambda
            then thenE (getitem w (inc_mi mu m))
                   (\<lambda>w1. Inr ((- fst beta) *\<^sub>R P0 wmu + fst (snd beta) *\<^sub>R P w1))
            else Inr ((- fst beta) *\<^sub>R P0 wmu)) (\<lambda>cw.
     thenE (dec mu m) (\<lambda>mu2.
       (case mu2 of
          None \<Rightarrow> Inr cw
        | Some nu \<Rightarrow>
            if nu \<in> set Lambda
            then thenE (getitem w nu) (\<lambda>w2. Inr (cw + snd (snd beta) *\<^sub>R P w2))
            else Inr cw))))"

text \<open>
  The loop body of \<open>for m in range(maxm)\<close> in \<open>apply\<close>, on the local accumulator \<open>cur_v\<close>:
  \<^verbatim>\<open>
    am_f, am_rv = self._coeff_field[m]
    Am = self._assemble_m(Vfine, am_f)
    beta = am_rv.orth_polys.get_beta(mu[m])
    ...
    cur_v += Am * cur_w
  \<close>
\<close>

definition apply_dim ::
  "dec_method \<Rightarrow> ('b, 'f, 'x::real_vector) multi_operator \<Rightarrow> multiindex list \<Rightarrow> 'x multivector \<Rightarrow>
   ('x \<Rightarrow> 'x) \<Rightarrow> 'b \<Rightarrow> multiindex \<Rightarrow> 'x \<Rightarrow> nat \<Rightarrow> py_error + 'x" where
  "apply_dim dec A Lambda w P Vfine mu cur_v m =
     thenE (cf_getitem (coeff_field A) m) (\<lambda>(am_f, am_rv).
     thenE (cur_w dec Lambda w P P (am_rv (mi_get mu m)) mu m) (\<lambda>cw.
       Inr (cur_v + assemble_m A Vfine am_f cw)))"

text \<open>
  The multi-indices whose meshes are joined for \<open>mu\<close> under \<open>JOINT_MU\<close>:
  \<^verbatim>\<open>
    mus = set([mu])
    mus = mus.union([mu.inc(m) for m in range(maxm)])
    mus = mus.union([mu.dec(m) for m in range(maxm)])
    mus = mus.intersection(Lambda)
  \<close>
  Python iterates the set in an order of its own; the model lists it in the order of
  construction. Both list comprehensions are evaluated in full, so an exception of
  \<open>mu.dec(m)\<close> is raised here.
\<close>

definition joint_mus ::
  "dec_method \<Rightarrow> multiindex list \<Rightarrow> nat \<Rightarrow> multiindex \<Rightarrow> py_error + multiindex list" where
  "joint_mus dec Lambda maxm mu =
     thenE (mapE (dec mu) [0..<maxm]) (\<lambda>decs.
       Inr (filter (\<lambda>nu. nu \<in> set Lambda)
              (remdups (mu # map (inc_mi mu) [0..<maxm] @
                        concat (map (\<lambda>d. case d of None \<Rightarrow> [] | Some nu \<Rightarrow> [nu]) decs)))))"

text \<open>
  The global joint basis, built before the loop under \<open>JOINT_GLOBAL\<close> only:
  \<^verbatim>\<open>
    if self._assembly_type == ASSEMBLY_TYPE.JOINT_GLOBAL:
        meshes = [w[m].basis.mesh for m in Lambda]
        mesh = create_joint_mesh(meshes)
        Vfine = w[Lambda[0]].basis.copy(mesh=mesh)
  \<close>
  \<open>Lambda[0]\<close> raises \<open>IndexError\<close> on an empty list. The result is \<open>Some\<close> exactly under
  \<open>JOINT_GLOBAL\<close>.
\<close>

definition global_basis ::
  "('b, 'f, 'x) multi_operator \<Rightarrow> ('b, 'x) fem \<Rightarrow> multiindex list \<Rightarrow> 'x multivector \<Rightarrow>
   py_error + 'b option" where
  "global_basis A F Lambda w =
     (if assembly_type A = JOINT_GLOBAL
      then thenE (mapE (\<lambda>m. thenE (getitem w m) (\<lambda>x. Inr (basis F x))) Lambda) (\<lambda>Vs.
           (case Lambda of
              [] \<Rightarrow> Inl IndexError
            | mu0 # rest \<Rightarrow>
                thenE (getitem w mu0) (\<lambda>x0. Inr (Some (joint_basis_global F (basis F x0) Vs)))))
      else Inr None)"

text \<open>
  The basis \<open>Vfine\<close> used for \<open>mu\<close>:
  \<^verbatim>\<open>
    if self._assembly_type != ASSEMBLY_TYPE.JOINT_GLOBAL:
        if (self._assembly_type == ASSEMBLY_TYPE.JOINT_MU and hasattr(w[mu].basis, "mesh")):
            ...
            meshes = [w[m].basis.mesh for m in mus]
            mesh, _ = create_joint_mesh(meshes)
            Vfine = w[mu].basis.copy(mesh=mesh)
        else:
            Vfine = w[mu].basis
  \<close>
\<close>

definition local_basis ::
  "dec_method \<Rightarrow> ('b, 'f, 'x) multi_operator \<Rightarrow> ('b, 'x) fem \<Rightarrow> multiindex list \<Rightarrow> nat \<Rightarrow> 'b option \<Rightarrow>
   'x multivector \<Rightarrow> multiindex \<Rightarrow> py_error + 'b" where
  "local_basis dec A F Lambda maxm gV w mu =
     (case gV of
        Some V \<Rightarrow> Inr V
      | None \<Rightarrow>
          thenE (getitem w mu) (\<lambda>wmu.
            if assembly_type A = JOINT_MU \<and> has_mesh F (basis F wmu)
            then thenE (joint_mus dec Lambda maxm mu) (\<lambda>mus.
                 thenE (mapE (\<lambda>m. thenE (getitem w m) (\<lambda>x. Inr (basis F x))) mus)
                   (\<lambda>Vs. Inr (joint_basis_mu F (basis F wmu) Vs)))
            else Inr (basis F wmu)))"

text \<open>
  The value \<open>cur_v\<close> that \<open>apply\<close> computes for \<open>mu\<close> before projecting it back:
  \<^verbatim>\<open>
    a0_f = self._coeff_field.mean_func
    A0 = self._assemble_0(Vfine, a0_f)
    cur_v = A0 * Vfine.project_onto(w[mu])
    for m in range(maxm):
        ...
  \<close>
\<close>

definition apply_cur_v ::
  "dec_method \<Rightarrow> ('b, 'f, 'x::real_vector) multi_operator \<Rightarrow> multiindex list \<Rightarrow> nat \<Rightarrow> 'x multivector \<Rightarrow>
   ('x \<Rightarrow> 'x) \<Rightarrow> 'b \<Rightarrow> multiindex \<Rightarrow> py_error + 'x" where
  "apply_cur_v dec A Lambda maxm w P Vfine mu =
     thenE (getitem w mu) (\<lambda>wmu.
       for_loop (apply_dim dec A Lambda w P Vfine mu) [0..<maxm]
         (assemble_0 A Vfine (mean_func (coeff_field A)) (P wmu)))"

text \<open>
  The body of \<open>for mu in Lambda\<close> in \<open>MultiOperator.apply\<close> of multi\_operator.py; \<open>a\<close> is
  the address of \<open>w\<close> and \<open>va\<close> the address of \<open>v\<close>; it ends with
  \<open>v[mu] = w[mu].basis.project_onto(cur_v)\<close>.
\<close>

definition apply_body ::
  "dec_method \<Rightarrow> ('b, 'f, 'x::real_vector) multi_operator \<Rightarrow> ('b, 'x) fem \<Rightarrow> multiindex list \<Rightarrow> nat \<Rightarrow>
   'b option \<Rightarrow> nat \<Rightarrow> nat \<Rightarrow> 'x heap \<Rightarrow> multiindex \<Rightarrow> py_error + 'x heap" where
  "apply_body dec A F Lambda maxm gV a va h mu =
     thenE (local_basis dec A F Lambda maxm gV (h ! a) mu) (\<lambda>Vfine.
     thenE (apply_cur_v dec A Lambda maxm (h ! a) (project_onto F Vfine) Vfine mu) (\<lambda>cv.
     thenE (getitem (h ! a) mu) (\<lambda>wmu.
       Inr (store h va mu (project_onto F (basis F wmu) cv)))))"

text \<open>\<open>MultiOperator.apply\<close> of multi\_operator.py, after \<open>maxm\<close> has been fixed.\<close>

definition apply_with_maxm ::
  "dec_method \<Rightarrow> ('b, 'f, 'x::real_vector) multi_operator \<Rightarrow> ('b, 'x) fem \<Rightarrow> nat \<Rightarrow> 'x heap \<Rightarrow> nat \<Rightarrow> nat \<Rightarrow>
   py_error + 'x heap" where
  "apply_with_maxm dec A F maxm h a va =
     (let Lambda = active_indices (h ! a)
      in thenE (global_basis A F Lambda (h ! a)) (\<lambda>gV.
           for_loop (apply_body dec A F Lambda maxm gV a va) Lambda h))"

text \<open>
  \<open>MultiOperator.apply(w)\<close> of multi\_operator.py: \<open>v = 0 * w\<close>, the choice of \<open>maxm\<close>, the
  loops, \<open>return v\<close>. The result is the heap, the address of \<open>v\<close> and the log.
\<close>

definition MultiOperator_apply ::
  "dec_method \<Rightarrow> ('b, 'f, 'x::real_vector) multi_operator \<Rightarrow> ('b, 'x) fem \<Rightarrow> 'x heap \<Rightarrow> nat \<Rightarrow>
   py_error + ('x heap \<times> nat \<times> log_record list)" where
  "MultiOperator_apply dec A F h a =
     (case new_object h (rmul 0 (h ! a)) of (h1, va) \<Rightarrow>
      (case truncate_maxm (coeff_field A) (max_order (h1 ! a)) of (maxm, logged) \<Rightarrow>
         thenE (apply_with_maxm dec A F maxm h1 a va) (\<lambda>h2. Inr (h2, va, logged))))"










text \<open>
  \<open>PreconditioningOperator\<close> (the same in both files) and its \<open>apply\<close>:
  \<^verbatim>\<open>
    v = 0 * w
    Delta = w.active_indices()
    for mu in Delta:
        a0_f = self._mean_func
        A0 = self._assemble_solver(w[mu].basis, a0_f)
        v[mu] = A0 * w[mu]
    return v
  \<close>
\<close>

record ('b, 'f, 'x) preconditioning_operator =
  pc_mean_func :: 'f
  assemble_solver :: "'b \<Rightarrow> 'f \<Rightarrow> 'x \<Rightarrow> 'x"

definition precond_body ::
  "('b, 'f, 'x) preconditioning_operator \<Rightarrow> ('b, 'x) fem \<Rightarrow> nat \<Rightarrow> nat \<Rightarrow> 'x heap \<Rightarrow>
   multiindex \<Rightarrow> py_error + 'x heap" where
  "precond_body Pc F a va h mu =
     thenE (getitem (h ! a) mu) (\<lambda>wmu.
       Inr (store h va mu (assemble_solver Pc (basis F wmu) (pc_mean_func Pc) wmu)))"

definition PreconditioningOperator_apply ::
  "('b, 'f, 'x::real_vector) preconditioning_operator \<Rightarrow> ('b, 'x) fem \<Rightarrow> 'x heap \<Rightarrow> nat \<Rightarrow>
   py_error + ('x heap \<times> nat)" where
  "PreconditioningOperator_apply Pc F h a =
     (case new_object h (rmul 0 (h ! a)) of (h1, va) \<Rightarrow>
        thenE (for_loop (precond_body Pc F a va) (active_indices (h1 ! a)) h1)
          (\<lambda>h2. Inr (h2, va)))"

section \<open>The operator in the words of the specification\<close>

text \<open>
  The component that the specification gives for \<open>mu\<close>: the mean-field contribution
  \<open>A0 w[mu]\<close> plus, for each dimension \<open>m\<close> below \<open>maxm\<close>, the operator \<open>A_m\<close> applied to
  \<open>-beta[0] w[mu] + beta[1] w[mu+e_m] + beta[-1] w[mu-e_m]\<close>, a neighbour counting only if
  it is active; \<open>mu-e_m\<close> is the multi-index that \<open>dec\<close> returns, if it returns one.
  \<open>P0\<close> and \<open>P\<close> say how \<open>w[mu]\<close> and a neighbour are represented on the basis
  \<open>V\<close> on which the operators are assembled.
\<close>

definition component :: "'x multivector \<Rightarrow> multiindex \<Rightarrow> 'x" where
  "component w mu = the (map_of w mu)"



section \<open>Example collaborators\<close>

text \<open>
  Concrete collaborators on which the theorems are instantiated: components are real
  numbers, there is one basis, projections are the identity, a coefficient function is a
  real number and the operator assembled from it multiplies by it (the solve operator
  divides by it).
\<close>

definition example_beta :: "nat \<Rightarrow> beta_triple" where
  "example_beta n = (1, 2, real n)"

definition example_field :: "real coefficient_field" where
  "example_field = \<lparr>mean_func = 2, terms = [(3, example_beta)]\<rparr>"

definition example_assemble :: "unit \<Rightarrow> real \<Rightarrow> real \<Rightarrow> real" where
  "example_assemble V f x = f * x"

definition example_fem :: "(unit, real) fem" where
  "example_fem =
     \<lparr>basis = (\<lambda>x. ()), project_onto = (\<lambda>V x. x), has_mesh = (\<lambda>V. True),
      joint_basis_mu = (\<lambda>V Vs. V), joint_basis_global = (\<lambda>V Vs. V),
      shared_basis = (\<lambda>w. ())\<rparr>"

definition example_operator :: "ASSEMBLY_TYPE \<Rightarrow> (unit, real, real) multi_operator" where
  "example_operator ty = MultiOperator example_field example_assemble None ty"




definition example_solve :: "unit \<Rightarrow> real \<Rightarrow> real \<Rightarrow> real" where
  "example_solve V f x = x / f"

definition example_preconditioner :: "(unit, real, real) preconditioning_operator" where
  "example_preconditioner = \<lparr>pc_mean_func = 2, assemble_solver = example_solve\<rparr>"

text \<open>
  Heaps with one multi-vector each, at address 0. \<open>example_heap\<close> has the zero index and
  the first unit index. In \<open>example_heap_pos\<close> every index has a positive degree in
  dimension 0, so that no decrement in that dimension fails. \<open>example_heap_long\<close> also has
  an index of the second dimension, so that its \<open>max_order\<close> is 2 while the example
  coefficient field has one term. \<open>empty_heap\<close> holds the empty multi-vector.
\<close>

definition example_heap :: "real heap" where
  "example_heap = [[([], 1), ([1], 2)]]"




section \<open>The adaptive solver (application/egsz/adaptive\_solver.py)\<close>

text \<open>
  The numbers that the loop compares, \<open>xi\<close>, \<open>error_eps\<close> and \<open>max_dof\<close>, are Python
  floats or ints. The loop does no arithmetic on them, and a comparison is exact, so a
  number is a real, an infinity or NaN; \<open>num_le x y\<close> is Python's \<open>x <= y\<close>, false whenever
  NaN takes part.
\<close>

datatype py_num = Num real | PosInf | NegInf | NaN

fun num_le :: "py_num \<Rightarrow> py_num \<Rightarrow> bool" where
  "num_le NaN y = False"
| "num_le x NaN = False"
| "num_le NegInf y = True"
| "num_le x PosInf = True"
| "num_le (Num x) (Num y) = (x \<le> y)"
| "num_le PosInf y = False"
| "num_le (Num x) NegInf = False"

text \<open>
  One statistics record, the dictionary \<open>stats\<close>, with the keys that the loop reads back
  or that the claims speak of. The other keys (norms, timings, error parts, the lists per
  multi-index) are written once and never read by the loop; they are left out.
\<close>

record stats =
  DOFS :: int
  EST :: py_num
  PROJ_MAX_ZETA :: py_num
  PROJ_MAX_INACTIVE_ZETA :: py_num
  MARKING_RES :: nat
  MARKING_PROJ :: nat
  MARKING_MI :: nat

text \<open>
  The collaborators of the loop, none of which is among the sources; their exceptions
  pass through the loop unchanged and are not modelled.
  \<^item> \<open>pcg w\<close>: the right-hand side \<open>prepare_rhs(A, w, coeff_field, pde)\<close>, the preconditioner
    and \<open>pcg(A, b, P, w0=w, eps=pcg_eps, maxiter=pcg_maxiter)\<close>; the new \<open>w\<close> and \<open>zeta\<close>.
  \<^item> \<open>dofs w\<close>: \<open>sum([b[mu]._fefunc.function_space().dim() for mu in b.keys()])\<close> for the
    right-hand side \<open>b\<close> built on \<open>w\<close>.
  \<^item> \<open>evaluateError w zeta\<close>: \<open>ResidualEstimator.evaluateError(w, ..., zeta, ...)\<close>; the
    estimate \<open>xi\<close> and the indicators.
  \<^item> \<open>mark ind w xi\<close>: \<open>Marking.mark(resind, projind, mierror, w.max_order, ...,
    estimator_data, marking_strategy)\<close>.
  \<^item> \<open>proj_zeta\<close>, \<open>marked_res\<close>, \<open>marked_proj\<close>, \<open>marked_mi\<close>: of the result of \<open>mark\<close>, the pair
    \<open>(proj_zeta[0], proj_zeta[1])\<close>, \<open>sum([len(cell_ids) for cell_ids in
    mesh_markers_R.itervalues()])\<close>, the same for \<open>mesh_markers_P\<close>, and
    \<open>len(new_multiindices)\<close>.
  \<^item> \<open>select_markers res proj mi marked\<close>: the markers and new multi-indices handed to the
    refinement, chosen from the result of \<open>mark\<close> by \<open>do_refinement["RES"]\<close>,
    \<open>do_refinement["PROJ"]\<close> and by whether the new multi-indices are kept.
  \<^item> \<open>uniform_markers w\<close>: every cell of every component, no new multi-index.
  \<^item> \<open>refine w sel\<close>: \<open>w\<close> after \<open>Marking.refine(w, mesh_markers, new_multiindices.keys(),
    ...)\<close>, which refines in place.
\<close>

record ('w, 'i, 'k, 's) collaborators =
  pcg :: "'w \<Rightarrow> 'w \<times> py_num"
  dofs :: "'w \<Rightarrow> int"
  evaluateError :: "'w \<Rightarrow> py_num \<Rightarrow> py_num \<times> 'i"
  mark :: "'i \<Rightarrow> 'w \<Rightarrow> py_num \<Rightarrow> 'k"
  proj_zeta :: "'k \<Rightarrow> py_num \<times> py_num"
  marked_res :: "'k \<Rightarrow> nat"
  marked_proj :: "'k \<Rightarrow> nat"
  marked_mi :: "'k \<Rightarrow> nat"
  select_markers :: "bool \<Rightarrow> bool \<Rightarrow> bool \<Rightarrow> 'k \<Rightarrow> 's"
  uniform_markers :: "'w \<Rightarrow> 's"
  refine :: "'w \<Rightarrow> 's \<Rightarrow> 'w"

text \<open>The keyword arguments that the loop itself reads.\<close>

record params =
  error_eps :: py_num
  max_refinements :: int
  max_dof :: py_num
  do_refinement_RES :: bool
  do_refinement_PROJ :: bool
  do_refinement_MI :: bool
  do_uniform_refinement :: bool

text \<open>
  The calls of the collaborators, recorded in order with the iteration that makes them,
  and the messages that the loop logs when it leaves or has ended.
\<close>

datatype call = PCG_SOLVE int | ESTIMATE int | MARK int | REFINE int

datatype message =
  SKIPPING_REFINEMENT int | REACHED_DOFS int | REACHED_ACCURACY py_num | ENDED int int

text \<open>
  The state of the loop: the variable \<open>w\<close>, the two lists \<open>sim_stats\<close> and \<open>w_history\<close>
  (\<open>None\<close> for no history), the loop variable \<open>refinement\<close>, and the two records of what
  happened. A history entry stands for the object that \<open>w_history.append(w)\<close> appends and
  shows the value of \<open>w\<close> at the append; \<open>Marking.refine\<close> changes that object in place
  afterwards, which the entry does not follow. The theorems below speak of the number and
  the order of the entries only.
\<close>

record 'w solver_state =
  solver_w :: 'w
  sim_stats :: "stats list"
  w_history :: "'w list option"
  refinement :: "int option"
  calls :: "call list"
  messages :: "message list"

text \<open>\<open>xs[i]\<close> on a Python list; a negative index counts from the end.\<close>

definition list_getitem :: "'a list \<Rightarrow> int \<Rightarrow> py_error + 'a" where
  "list_getitem xs i =
     (if 0 \<le> i \<and> i < int (length xs) then Inr (xs ! nat i)
      else if i < 0 \<and> - int (length xs) \<le> i then Inr (xs ! nat (int (length xs) + i))
      else Inl IndexError)"

text \<open>An assignment to a key of \<open>xs[-1]\<close>: it raises on the empty list.\<close>

definition update_last :: "('a \<Rightarrow> 'a) \<Rightarrow> 'a list \<Rightarrow> py_error + 'a list" where
  "update_last f xs = (if xs = [] then Inl IndexError else Inr (butlast xs @ [f (last xs)]))"

text \<open>
  \<^verbatim>\<open>
    def pcg_solve(A, w, coeff_field, pde, stats, pcg_eps, pcg_maxiter):
        b = prepare_rhs(A, w, coeff_field, pde)
        ...
        w, zeta, numit = pcg(A, b, P, w0=w, eps=pcg_eps, maxiter=pcg_maxiter)
        ...
        stats["DOFS"] = sum([b[mu]._fefunc.function_space().dim() for mu in b.keys()])
        ...
        return w, zeta
  \<close>
  The result is the new \<open>w\<close>, \<open>zeta\<close> and the value stored under \<open>"DOFS"\<close>.
\<close>

definition pcg_solve :: "('w, 'i, 'k, 's) collaborators \<Rightarrow> 'w \<Rightarrow> 'w \<times> py_num \<times> int" where
  "pcg_solve C w = (case pcg C w of (w1, zeta) \<Rightarrow> (w1, zeta, dofs C w))"

text \<open>
  The guard of the two appends, \<open>refinement == 0 or start_iteration < refinement\<close>.
\<close>

definition appends :: "int \<Rightarrow> int \<Rightarrow> bool" where
  "appends start k \<longleftrightarrow> k = 0 \<or> start < k"

text \<open>
  The record that an iteration builds before the exit checks: \<open>DOFS\<close> from \<open>pcg_solve\<close>,
  \<open>EST = xi\<close>, and zero in the fields that only the marking fills.
\<close>

definition new_stats :: "int \<Rightarrow> py_num \<Rightarrow> stats" where
  "new_stats d xi =
     \<lparr>DOFS = d, EST = xi, PROJ_MAX_ZETA = Num 0, PROJ_MAX_INACTIVE_ZETA = Num 0,
      MARKING_RES = 0, MARKING_PROJ = 0, MARKING_MI = 0\<rparr>"

text \<open>
  The marking and refinement of iteration \<open>k\<close> (the body of \<open>if refinement <
  max_refinements\<close>):
  \<^verbatim>\<open>
    if not do_uniform_refinement:
        mesh_markers_R, mesh_markers_P, new_multiindices, proj_zeta, new_multiindices_all =
            Marking.mark(...)
        sim_stats[-1]["PROJ-MAX-ZETA"] = proj_zeta[0]
        sim_stats[-1]["PROJ-MAX-INACTIVE-ZETA"] = proj_zeta[1]
        ...
        stats["MARKING-RES"] = sum([len(cell_ids) for cell_ids in mesh_markers_R.itervalues()])
        stats["MARKING-PROJ"] = sum([len(cell_ids) for cell_ids in mesh_markers_P.itervalues()])
        stats["MARKING-MI"] = len(new_multiindices)
        ... (the markers, by do_refinement["RES"] and do_refinement["PROJ"])
        if not do_refinement["MI"] or refinement == max_refinements:
            new_multiindices = {}
    else:
        ... (every cell of every component)
        new_multiindices = {}
    Marking.refine(w, mesh_markers, new_multiindices.keys(), ...)
  \<close>
  \<open>stats\<close> is the dictionary of this iteration. If it was appended, it is the object
  \<open>sim_stats[-1]\<close> and the three counts show there; if not, it is dropped with the
  iteration.
\<close>

definition mark_refine ::
  "('w, 'i, 'k, 's) collaborators \<Rightarrow> params \<Rightarrow> int \<Rightarrow> int \<Rightarrow> py_num \<Rightarrow> 'i \<Rightarrow>
   'w solver_state \<Rightarrow> py_error + 'w solver_state" where
  "mark_refine C P start k xi ind s =
     (if \<not> do_uniform_refinement P then
        (let marked = mark C ind (solver_w s) xi
         in thenE (update_last
                     (\<lambda>r. r\<lparr>PROJ_MAX_ZETA := fst (proj_zeta C marked),
                             PROJ_MAX_INACTIVE_ZETA := snd (proj_zeta C marked)\<rparr>)
                     (sim_stats s)) (\<lambda>ss1.
            thenE (if appends start k
                   then update_last
                          (\<lambda>r. r\<lparr>MARKING_RES := marked_res C marked,
                                  MARKING_PROJ := marked_proj C marked,
                                  MARKING_MI := marked_mi C marked\<rparr>) ss1
                   else Inr ss1) (\<lambda>ss2.
              Inr (s\<lparr>sim_stats := ss2,
                      solver_w := refine C (solver_w s)
                        (select_markers C (do_refinement_RES P) (do_refinement_PROJ P)
                           (\<not> (\<not> do_refinement_MI P \<or> k = max_refinements P)) marked),
                      calls := calls s @ [MARK k, REFINE k]\<rparr>))))
      else
        Inr (s\<lparr>solver_w := refine C (solver_w s) (uniform_markers C (solver_w s)),
                calls := calls s @ [REFINE k]\<rparr>))"

text \<open>
  One pass of the body of \<open>for refinement in range(start_iteration, max_refinements +
  1)\<close>; the result says whether a \<open>break\<close> was taken.
  \<^verbatim>\<open>
    stats = {}
    w, zeta = pcg_solve(A, w, coeff_field, pde, stats, pcg_eps, pcg_maxiter)
    if w_history is not None and (refinement == 0 or start_iteration < refinement):
        w_history.append(w)
    xi, resind, projind, mierror, estparts, errors, timing_stats =
        ResidualEstimator.evaluateError(w, ..., zeta, ...)
    ...
    stats["EST"] = xi
    ...
    stats["MARKING-RES"] = 0
    stats["MARKING-PROJ"] = 0
    stats["MARKING-MI"] = 0
    ...
    if refinement == 0 or start_iteration < refinement:
        sim_stats.append(stats)
    if refinement > max_refinements:
        logger.info("SKIPPING REFINEMENT after FINAL SOLUTION in ITERATION %i", refinement)
        break
    if sim_stats[refinement]["DOFS"] >= max_dof:
        logger.info("REACHED %i DOFS, EXITING refinement loop", sim_stats[refinement]["DOFS"])
        break
    if xi <= error_eps:
        logger.info("error reached requested accuracy, xi=%f", xi)
        break
    if refinement < max_refinements:
        ...
  \<close>
\<close>

definition iteration ::
  "('w, 'i, 'k, 's) collaborators \<Rightarrow> params \<Rightarrow> int \<Rightarrow> int \<Rightarrow> 'w solver_state \<Rightarrow>
   py_error + ('w solver_state \<times> bool)" where
  "iteration C P start k s =
     (case pcg_solve C (solver_w s) of (w1, zeta, d) \<Rightarrow>
      (case evaluateError C w1 zeta of (xi, ind) \<Rightarrow>
       (let s2 = s\<lparr>solver_w := w1,
                   sim_stats := (if appends start k then sim_stats s @ [new_stats d xi]
                                 else sim_stats s),
                   w_history := (case w_history s of
                                   None \<Rightarrow> None
                                 | Some hs \<Rightarrow> if appends start k then Some (hs @ [w1])
                                             else Some hs),
                   refinement := Some k,
                   calls := calls s @ [PCG_SOLVE k, ESTIMATE k]\<rparr>
        in if max_refinements P < k
           then Inr (s2\<lparr>messages := messages s2 @ [SKIPPING_REFINEMENT k]\<rparr>, True)
           else thenE (list_getitem (sim_stats s2) k) (\<lambda>r.
                  if num_le (max_dof P) (Num (of_int (DOFS r)))
                  then Inr (s2\<lparr>messages := messages s2 @ [REACHED_DOFS (DOFS r)]\<rparr>, True)
                  else if num_le xi (error_eps P)
                  then Inr (s2\<lparr>messages := messages s2 @ [REACHED_ACCURACY xi]\<rparr>, True)
                  else if k < max_refinements P
                  then thenE (mark_refine C P start k xi ind s2) (\<lambda>s3. Inr (s3, False))
                  else Inr (s2, False)))))"

text \<open>The \<open>for\<close> loop over the list \<open>range(start_iteration, max_refinements + 1)\<close>.\<close>

fun refinement_loop ::
  "('w, 'i, 'k, 's) collaborators \<Rightarrow> params \<Rightarrow> int \<Rightarrow> int list \<Rightarrow> 'w solver_state \<Rightarrow>
   py_error + 'w solver_state" where
  "refinement_loop C P start [] s = Inr s"
| "refinement_loop C P start (k # ks) s =
     thenE (iteration C P start k s)
       (\<lambda>(s', brk). if brk then Inr s' else refinement_loop C P start ks s')"

text \<open>
  \<^verbatim>\<open>
    try:
        start_iteration = max(len(sim_stats) - 1, 0)
    except:
        start_iteration = 0
  \<close>
  \<open>sim_stats\<close> is a list here, so \<open>len\<close> does not raise.
\<close>

definition start_iteration :: "stats list \<Rightarrow> int" where
  "start_iteration ss = max (int (length ss) - 1) 0"

text \<open>
  After the loop:
  \<^verbatim>\<open>
    if refinement:
        logger.info("ENDED refinement loop after %i of %i refinements with %i dofs ...",
                    refinement, max_refinements, sim_stats[refinement]["DOFS"], ...)
  \<close>
  \<open>refinement\<close> is false when it is \<open>None\<close> (the loop did not run) or \<open>0\<close>.
\<close>

definition final_message :: "'w solver_state \<Rightarrow> py_error + 'w solver_state" where
  "final_message s =
     (case refinement s of
        None \<Rightarrow> Inr s
      | Some k \<Rightarrow>
          if k = 0 then Inr s
          else thenE (list_getitem (sim_stats s) k)
                 (\<lambda>r. Inr (s\<lparr>messages := messages s @ [ENDED k (DOFS r)]\<rparr>)))"

text \<open>
  \<open>AdaptiveSolver\<close>, from the set-up of \<open>sim_stats\<close> to the \<open>return\<close>. Python returns
  \<open>w, sim_stats\<close>; the model returns the final state, which holds both, the history list
  that the caller passed in, and the records of what happened.
  \<^verbatim>\<open>
    w = w0
    if sim_stats is None:
        assert w_history is None or len(w_history) == 0
        sim_stats = []
  \<close>
\<close>

definition initial_state :: "'w \<Rightarrow> 'w list option \<Rightarrow> stats list \<Rightarrow> 'w solver_state" where
  "initial_state w0 hist ss =
     \<lparr>solver_w = w0, sim_stats = ss, w_history = hist, refinement = None,
      calls = [], messages = []\<rparr>"

definition run_solver ::
  "('w, 'i, 'k, 's) collaborators \<Rightarrow> params \<Rightarrow> 'w \<Rightarrow> 'w list option \<Rightarrow> stats list \<Rightarrow>
   py_error + 'w solver_state" where
  "run_solver C P w0 hist ss =
     thenE (refinement_loop C P (start_iteration ss)
              [start_iteration ss..max_refinements P] (initial_state w0 hist ss))
       final_message"

definition AdaptiveSolver ::
  "('w, 'i, 'k, 's) collaborators \<Rightarrow> params \<Rightarrow> 'w \<Rightarrow> 'w list option \<Rightarrow> stats list option \<Rightarrow>
   py_error + 'w solver_state" where
  "AdaptiveSolver C P w0 hist stats_arg =
     (case stats_arg of
        None \<Rightarrow>
          if hist = None \<or> hist = Some [] then run_solver C P w0 hist []
          else Inl AssertionError
      | Some ss \<Rightarrow> run_solver C P w0 hist ss)"

text \<open>The iterations that were solved, read off the recorded calls.\<close>

fun solved :: "call list \<Rightarrow> int list" where
  "solved [] = []"
| "solved (PCG_SOLVE k # cs) = k # solved cs"
| "solved (c # cs) = solved cs"

text \<open>
  The exit checks in the words of the specification, in their order: \<open>k > max_refinements\<close>,
  then \<open>DOFS >= max_dof\<close>, then \<open>xi <= error_eps\<close>.
\<close>

datatype verdict = EXHAUSTED_REFINEMENTS | EXHAUSTED_DOFS | CONVERGED | CONTINUE

definition exit_checks :: "params \<Rightarrow> int \<Rightarrow> int \<Rightarrow> py_num \<Rightarrow> verdict" where
  "exit_checks P k d xi =
     (if max_refinements P < k then EXHAUSTED_REFINEMENTS
      else if num_le (max_dof P) (Num (of_int d)) then EXHAUSTED_DOFS
      else if num_le xi (error_eps P) then CONVERGED
      else CONTINUE)"

definition verdict_messages :: "verdict \<Rightarrow> int \<Rightarrow> int \<Rightarrow> py_num \<Rightarrow> message list" where
  "verdict_messages v k d xi =
     (case v of
        EXHAUSTED_REFINEMENTS \<Rightarrow> [SKIPPING_REFINEMENT k]
      | EXHAUSTED_DOFS \<Rightarrow> [REACHED_DOFS d]
      | CONVERGED \<Rightarrow> [REACHED_ACCURACY xi]
      | CONTINUE \<Rightarrow> [])"

text \<open>Example collaborators and arguments for the solver.\<close>

definition example_collaborators :: "(nat, unit, nat, nat) collaborators" where
  "example_collaborators =
     \<lparr>pcg = (\<lambda>w. (w, Num (1 / 2))), dofs = (\<lambda>w. 10 * int w),
      evaluateError = (\<lambda>w zeta. (Num (1 / (1 + real w)), ())),
      mark = (\<lambda>ind w xi. w), proj_zeta = (\<lambda>k. (Num 3, Num 4)),
      marked_res = (\<lambda>k. 5), marked_proj = (\<lambda>k. 6), marked_mi = (\<lambda>k. 7),
      select_markers = (\<lambda>res proj mi k. k), uniform_markers = (\<lambda>w. w),
      refine = (\<lambda>w sel. w + 1)\<rparr>"

definition example_params :: params where
  "example_params =
     \<lparr>error_eps = Num (1 / 100), max_refinements = 2, max_dof = Num 25,
      do_refinement_RES = True, do_refinement_PROJ = True, do_refinement_MI = False,
      do_uniform_refinement = False\<rparr>"

section \<open>Auxiliary predicates\<close>


text \<open>A list of degrees is normal when it has no trailing zero.\<close>

definition normal :: "nat list \<Rightarrow> bool" where
  "normal xs = (xs = [] \<or> last xs \<noteq> 0)"

section \<open>Sequencing\<close>

lemma thenE_Inr [simp]: "thenE (Inr v) f = f v"
  by (simp add: thenE_def)

lemma thenE_Inl [simp]: "thenE (Inl e) f = Inl e"
  by (simp add: thenE_def)

section \<open>Properties of multi-indices\<close>

lemma strip_zeros_snoc:
  "strip_zeros (xs @ [d]) = (if d = 0 then strip_zeros xs else xs @ [d])"
  by (simp add: strip_zeros_def)

lemma normal_strip_zeros: "normal (strip_zeros xs)"
  by (induction xs rule: rev_induct) (simp_all add: strip_zeros_snoc normal_def strip_zeros_def)

lemma strip_zeros_normal: "normal xs \<Longrightarrow> strip_zeros xs = xs"
  by (cases xs rule: rev_cases) (simp_all add: strip_zeros_snoc normal_def strip_zeros_def)

lemma mi_get_strip_zeros: "mi_get (strip_zeros xs) k = mi_get xs k"
  by (induction xs rule: rev_induct)
     (auto simp: strip_zeros_snoc mi_get_def nth_append strip_zeros_def less_Suc_eq)

lemma length_strip_zeros_le: "length (strip_zeros xs) \<le> length xs"
  by (simp add: strip_zeros_def) (metis length_dropWhile_le length_rev)

lemma normal_ext:
  assumes "normal xs" "normal ys" "\<And>k. mi_get xs k = mi_get ys k"
  shows "xs = ys"
proof -
  have len: "length us \<le> length vs" if "normal us" "\<And>k. mi_get us k = mi_get vs k" for us vs :: "nat list"
  proof (rule ccontr)
    assume "\<not> length us \<le> length vs"
    then have lt: "length vs < length us" by simp
    then have ne: "us \<noteq> []" by auto
    have "mi_get us (length us - 1) = last us"
      using ne by (simp add: mi_get_def last_conv_nth)
    moreover have "mi_get vs (length us - 1) = 0"
    proof -
      have "\<not> length us - 1 < length vs" using lt by arith
      then show ?thesis by (simp add: mi_get_def)
    qed
    ultimately have "last us = 0" using that(2) by simp
    with that(1) ne show False by (simp add: normal_def)
  qed
  have "length xs = length ys"
    using len [of xs ys] len [of ys xs] assms by simp
  moreover have "xs ! k = ys ! k" if "k < length xs" for k
    using assms(3) [of k] that \<open>length xs = length ys\<close> by (simp add: mi_get_def)
  ultimately show ?thesis by (simp add: list_eq_iff_nth_eq)
qed

lemma mi_get_mi_set: "mi_get (mi_set mu m d) k = (if k = m then d else mi_get mu k)"
proof -
  have "mi_get (mi_set mu m d) k = mi_get ((mu @ replicate (Suc m - length mu) 0)[m := d]) k"
    by (simp only: mi_set_def mi_get_strip_zeros)
  also have "\<dots> = (if k = m then d else mi_get mu k)"
    by (auto simp: mi_get_def nth_append nth_list_update)
  finally show ?thesis .
qed

lemma normal_mi_set: "normal (mi_set mu m d)"
  by (simp add: mi_set_def normal_strip_zeros)

lemma mi_set_mi_set_back:
  assumes "normal mu"
  shows "mi_set (mi_set mu m d) m (mi_get mu m) = mu"
  by (rule normal_ext) (simp_all add: normal_mi_set assms mi_get_mi_set)

text \<open>
  C4. For every multi-index \<open>mu\<close> and every dimension \<open>m\<close>, \<open>mu.increment(m).decrement(m)\<close>
  is \<open>mu\<close> again, and \<open>decrement(m)\<close> fails with a domain error exactly when the resulting
  degree would be negative, that is, when \<open>mu[m]\<close> is zero. Every multi-index is the value
  of the constructor on some list of degrees.
\<close>

theorem increment_decrement_roundtrip:
  "dec_mi (inc_mi (Multiindex arr) m) m = Inr (Multiindex arr) \<and>
   (dec_mi (Multiindex arr) m = Inl DomainError) = (int (mi_get (Multiindex arr) m) - 1 < 0) \<and>
   (dec_mi (Multiindex arr) m = Inl DomainError) = (mi_get (Multiindex arr) m = 0)"
proof -
  have n: "normal (Multiindex arr)"
    by (simp add: Multiindex_def normal_strip_zeros)
  have "dec_mi (inc_mi (Multiindex arr) m) m = Inr (Multiindex arr)"
    using mi_set_mi_set_back [OF n, of m "mi_get (Multiindex arr) m + 1"]
    by (simp add: dec_mi_def inc_mi_def mi_get_mi_set)
  moreover have
    "(dec_mi (Multiindex arr) m = Inl DomainError) = (int (mi_get (Multiindex arr) m) - 1 < 0)"
    by (simp add: dec_mi_def)
  moreover have "(dec_mi (Multiindex arr) m = Inl DomainError) = (mi_get (Multiindex arr) m = 0)"
    by (simp add: dec_mi_def)
  ultimately show ?thesis by simp
qed

section \<open>Properties of the discrete operator\<close>

subsection \<open>Loops\<close>


lemma for_loop_progress_aux:
  assumes step: "\<And>pre x s. I pre s \<Longrightarrow> x \<in> set xs \<Longrightarrow> \<exists>s'. body s x = Inr s' \<and> I (pre @ [x]) s'"
  shows "I pre s \<Longrightarrow> set ys \<subseteq> set xs \<Longrightarrow> \<exists>s'. for_loop body ys s = Inr s' \<and> I (pre @ ys) s'"
proof (induction ys arbitrary: pre s)
  case Nil
  then show ?case by simp
next
  case (Cons y ys)
  from Cons.prems obtain s1 where s1: "body s y = Inr s1" "I (pre @ [y]) s1"
    using step [of pre s y] by auto
  from Cons.IH [OF s1(2)] Cons.prems(2)
  obtain s' where "for_loop body ys s1 = Inr s'" "I ((pre @ [y]) @ ys) s'"
    by auto
  then show ?case using s1(1) by simp
qed

lemma for_loop_progress:
  assumes "I [] s"
    and "\<And>pre x s. I pre s \<Longrightarrow> x \<in> set xs \<Longrightarrow> \<exists>s'. body s x = Inr s' \<and> I (pre @ [x]) s'"
  shows "\<exists>s'. for_loop body xs s = Inr s' \<and> I xs s'"
  using for_loop_progress_aux [of I xs body "[]" s xs] assms by auto



subsection \<open>Multi-vectors and the heap\<close>

lemma getitem_active:
  "mu \<in> set (active_indices w) \<Longrightarrow> getitem w mu = Inr (component w mu)"
  by (auto simp: getitem_def active_indices_def component_def map_of_eq_None_iff
      split: option.splits)

lemma active_indices_rmul [simp]: "active_indices (rmul c w) = active_indices w"
  by (simp add: active_indices_def rmul_def case_prod_unfold comp_def)

lemma active_indices_setitem:
  "mu \<in> set (active_indices v) \<Longrightarrow> active_indices (setitem v mu x) = active_indices v"
  by (simp add: active_indices_def setitem_def update_keys)

lemma component_setitem:
  "component (setitem v mu x) nu = (if nu = mu then x else component v nu)"
  by (simp add: component_def setitem_def update_conv')

lemma length_store [simp]: "length (store h va mu x) = length h"
  by (simp add: store_def)

lemma store_same: "va < length h \<Longrightarrow> store h va mu x ! va = setitem (h ! va) mu x"
  by (simp add: store_def)

lemma store_other: "a \<noteq> va \<Longrightarrow> store h va mu x ! a = h ! a"
  by (simp add: store_def)


subsection \<open>One dimension\<close>







subsection \<open>The bases\<close>





subsection \<open>The loop over the active indices\<close>

lemma heap_loop:
  assumes va: "va < length h1" and ne: "a \<noteq> va"
    and keys: "active_indices (h1 ! va) = active_indices (h1 ! a)"
    and body: "\<And>h' mu. length h' = length h1 \<Longrightarrow> h' ! a = h1 ! a \<Longrightarrow>
        active_indices (h' ! va) = active_indices (h1 ! a) \<Longrightarrow>
        mu \<in> set (active_indices (h1 ! a)) \<Longrightarrow> body h' mu = Inr (store h' va mu (val mu))"
  shows "\<exists>h2. for_loop body (active_indices (h1 ! a)) h1 = Inr h2 \<and> length h2 = length h1 \<and>
      (\<forall>b. b \<noteq> va \<longrightarrow> h2 ! b = h1 ! b) \<and>
      active_indices (h2 ! va) = active_indices (h1 ! a) \<and>
      (\<forall>mu\<in>set (active_indices (h1 ! a)). component (h2 ! va) mu = val mu)"
proof -
  define I where "I pre h' \<longleftrightarrow> length h' = length h1 \<and> (\<forall>b. b \<noteq> va \<longrightarrow> h' ! b = h1 ! b) \<and>
      active_indices (h' ! va) = active_indices (h1 ! a) \<and>
      (\<forall>mu\<in>set pre. component (h' ! va) mu = val mu)" for pre :: "multiindex list" and h'
  have init: "I [] h1"
    by (simp add: I_def keys)
  have step: "\<exists>s'. body s x = Inr s' \<and> I (pre @ [x]) s'"
    if "I pre s" "x \<in> set (active_indices (h1 ! a))" for pre x s
  proof -
    from that(1) have s: "length s = length h1" "\<forall>b. b \<noteq> va \<longrightarrow> s ! b = h1 ! b"
      "active_indices (s ! va) = active_indices (h1 ! a)"
      "\<forall>mu\<in>set pre. component (s ! va) mu = val mu"
      by (simp_all add: I_def)
    have sa: "s ! a = h1 ! a" using s(2) ne by simp
    have b: "body s x = Inr (store s va x (val x))"
      by (rule body [OF s(1) sa s(3) that(2)])
    have vs: "va < length s" using va s(1) by simp
    have xin: "x \<in> set (active_indices (s ! va))" using that(2) s(3) by simp
    have "I (pre @ [x]) (store s va x (val x))"
      using s xin
      by (auto simp: I_def store_same [OF vs] store_other active_indices_setitem
          component_setitem)
    with b show ?thesis by blast
  qed
  from for_loop_progress [of I h1 "active_indices (h1 ! a)" body, OF init step]
  show ?thesis by (auto simp: I_def)
qed





subsection \<open>The variant that updates the result in place\<close>





subsection \<open>The operators as a whole\<close>




lemma PreconditioningOperator_apply_result:
  assumes a: "a < length h"
  shows "\<exists>h'.
      PreconditioningOperator_apply Pc F h a = Inr (h', length h) \<and>
      length h' = Suc (length h) \<and> (\<forall>b. b \<noteq> length h \<longrightarrow> h' ! b = (h @ [rmul 0 (h ! a)]) ! b) \<and>
      active_indices (h' ! length h) = active_indices (h ! a) \<and>
      (\<forall>mu\<in>set (active_indices (h ! a)).
         component (h' ! length h) mu =
           assemble_solver Pc (basis F (component (h ! a) mu)) (pc_mean_func Pc)
             (component (h ! a) mu))"
proof -
  define h1 where "h1 = h @ [rmul 0 (h ! a)]"
  have h1: "h1 ! a = h ! a" "h1 ! length h = rmul 0 (h ! a)" "length h < length h1"
    "a \<noteq> length h" "length h1 = Suc (length h)"
    using a by (simp_all add: h1_def nth_append)
  have keys: "active_indices (h1 ! length h) = active_indices (h1 ! a)"
    by (simp add: h1)
  have body: "precond_body Pc F a (length h) h' mu =
      Inr (store h' (length h) mu
        (assemble_solver Pc (basis F (component (h1 ! a) mu)) (pc_mean_func Pc)
           (component (h1 ! a) mu)))"
    if "h' ! a = h1 ! a" "mu \<in> set (active_indices (h1 ! a))" for h' mu
    using that by (simp add: precond_body_def getitem_active)
  from heap_loop [of "length h" h1 a "precond_body Pc F a (length h)"
      "\<lambda>mu. assemble_solver Pc (basis F (component (h1 ! a) mu)) (pc_mean_func Pc)
         (component (h1 ! a) mu)", OF h1(3) h1(4) keys]
  obtain h2 where h2: "for_loop (precond_body Pc F a (length h)) (active_indices (h1 ! a)) h1
        = Inr h2"
      "length h2 = length h1" "\<forall>b. b \<noteq> length h \<longrightarrow> h2 ! b = h1 ! b"
      "active_indices (h2 ! length h) = active_indices (h1 ! a)"
      "\<forall>mu\<in>set (active_indices (h1 ! a)). component (h2 ! length h) mu =
         assemble_solver Pc (basis F (component (h1 ! a) mu)) (pc_mean_func Pc)
           (component (h1 ! a) mu)"
    using body by blast
  have "PreconditioningOperator_apply Pc F h a = Inr (h2, length h)"
    using h2(1)
    by (simp add: PreconditioningOperator_apply_def new_object_def h1_def [symmetric] h1)
  then show ?thesis
    using h2 unfolding h1 h1_def [symmetric] by blast
qed

section \<open>The claims about the operators\<close>



text \<open>
  On the example with the zero index the two deliveries of a failed decrement differ:
  raised, it ends \<open>apply\<close>; returned as an object that is no multi-index, the neighbour is
  left out.
\<close>

lemma example_zero_index_dec_raising:
  "MultiOperator_apply dec_raising (example_operator JOINT_MU) example_fem example_heap 0
     = Inl DomainError"
  by code_simp

lemma example_zero_index_dec_returning:
  "MultiOperator_apply dec_returning (example_operator JOINT_MU) example_fem example_heap 0
     = Inr ([[([], 1), ([1], 2)], [([], 11), ([1], 1)]], 1, [])"
  by code_simp












text \<open>
  C6. For every multi-vector \<open>w\<close> with active set \<open>Delta\<close>, \<open>PreconditioningOperator.apply(w)\<close>
  returns a multi-vector whose component at each \<open>mu\<close> in \<open>Delta\<close> is the mean-field solve
  operator, assembled from the mean coefficient on the basis of \<open>w[mu]\<close>, applied to
  \<open>w[mu]\<close>. Nothing else enters: any other multi-vector with the same component at \<open>mu\<close>
  gives the same component of the result.
\<close>

theorem PreconditioningOperator_apply_mean_field_only:
  assumes "a < length h" and "mu \<in> set (active_indices (h ! a))"
  shows
    "\<exists>h' va. PreconditioningOperator_apply Pc F h a = Inr (h', va) \<and>
       getitem (h' ! va) mu =
         Inr (assemble_solver Pc (basis F (component (h ! a) mu)) (pc_mean_func Pc)
                (component (h ! a) mu)) \<and>
       (\<forall>g b. b < length g \<and> mu \<in> set (active_indices (g ! b)) \<and>
              component (g ! b) mu = component (h ! a) mu \<longrightarrow>
          (\<exists>g' vb. PreconditioningOperator_apply Pc F g b = Inr (g', vb) \<and>
             getitem (g' ! vb) mu = getitem (h' ! va) mu))"
proof -
  have res: "\<exists>g' vb. PreconditioningOperator_apply Pc F g b = Inr (g', vb) \<and>
       getitem (g' ! vb) mu =
         Inr (assemble_solver Pc (basis F (component (g ! b) mu)) (pc_mean_func Pc)
                (component (g ! b) mu))"
    if b: "b < length g" and k: "mu \<in> set (active_indices (g ! b))"
    for g b
  proof -
    from PreconditioningOperator_apply_result [OF b, of Pc F]
    obtain g' where r: "PreconditioningOperator_apply Pc F g b = Inr (g', length g)"
      "active_indices (g' ! length g) = active_indices (g ! b)"
      "\<forall>mu\<in>set (active_indices (g ! b)).
         component (g' ! length g) mu =
           assemble_solver Pc (basis F (component (g ! b) mu)) (pc_mean_func Pc)
             (component (g ! b) mu)"
      by blast
    have "getitem (g' ! length g) mu = Inr (component (g' ! length g) mu)"
      by (rule getitem_active) (simp add: r(2) k)
    then show ?thesis using r k by auto
  qed
  from res [OF assms] obtain h' va where h':
    "PreconditioningOperator_apply Pc F h a = Inr (h', va)"
    "getitem (h' ! va) mu =
       Inr (assemble_solver Pc (basis F (component (h ! a) mu)) (pc_mean_func Pc)
              (component (h ! a) mu))"
    by blast
  have "\<exists>g' vb. PreconditioningOperator_apply Pc F g b = Inr (g', vb) \<and>
       getitem (g' ! vb) mu = getitem (h' ! va) mu"
    if "b < length g \<and> mu \<in> set (active_indices (g ! b)) \<and>
        component (g ! b) mu = component (h ! a) mu" for g b
    using res [of b g] that h'(2) by auto
  with h' show ?thesis by blast
qed

theorem PreconditioningOperator_apply_mean_field_only_witness:
  "0 < length example_heap \<and> [1] \<in> set (active_indices (example_heap ! 0)) \<and>
   (\<exists>h' va. PreconditioningOperator_apply example_preconditioner example_fem example_heap 0
        = Inr (h', va) \<and> getitem (h' ! va) [1] = Inr 1)"
proof -
  have a: "0 < length example_heap"
    by (simp add: example_heap_def)
  have mu: "[1] \<in> set (active_indices (example_heap ! 0))"
    by (simp add: example_heap_def active_indices_def)
  have v: "assemble_solver example_preconditioner
      (basis example_fem (component (example_heap ! 0) [1])) (pc_mean_func example_preconditioner)
      (component (example_heap ! 0) [1]) = 1"
    by (simp add: example_preconditioner_def example_solve_def example_heap_def component_def)
  show ?thesis
    using PreconditioningOperator_apply_mean_field_only
      [OF a mu, of example_preconditioner example_fem] a mu
    unfolding v by blast
qed

section \<open>Properties of the adaptive solver\<close>

subsection \<open>One iteration\<close>

lemma list_getitem_nonneg:
  "0 \<le> k \<Longrightarrow> k < int (length xs) \<Longrightarrow> list_getitem xs k = Inr (xs ! nat k)"
  by (simp add: list_getitem_def)

lemma update_last_nonempty:
  "xs \<noteq> [] \<Longrightarrow> update_last f xs = Inr (butlast xs @ [f (last xs)])"
  by (simp add: update_last_def)

lemma map_butlast_last:
  assumes "xs \<noteq> []" and "g (f (last xs)) = g (last xs)"
  shows "map g (butlast xs @ [f (last xs)]) = map g xs"
proof -
  have "map g (butlast xs @ [f (last xs)]) = map g (butlast xs @ [last xs])"
    using assms(2) by simp
  then show ?thesis using assms(1) by simp
qed

lemma mark_refine_result:
  assumes "sim_stats s \<noteq> []"
  shows "\<exists>s'. mark_refine C P start k xi ind s = Inr s' \<and>
     map DOFS (sim_stats s') = map DOFS (sim_stats s) \<and>
     w_history s' = w_history s \<and> refinement s' = refinement s \<and>
     messages s' = messages s \<and>
     calls s' = calls s @ (if do_uniform_refinement P then [REFINE k] else [MARK k, REFINE k])"
proof (cases "do_uniform_refinement P")
  case True
  then show ?thesis by (simp add: mark_refine_def)
next
  case False
  define f1 where "f1 = (\<lambda>r::stats. r\<lparr>PROJ_MAX_ZETA := fst (proj_zeta C (mark C ind (solver_w s) xi)),
      PROJ_MAX_INACTIVE_ZETA := snd (proj_zeta C (mark C ind (solver_w s) xi))\<rparr>)"
  define f2 where "f2 = (\<lambda>r::stats. r\<lparr>MARKING_RES := marked_res C (mark C ind (solver_w s) xi),
      MARKING_PROJ := marked_proj C (mark C ind (solver_w s) xi),
      MARKING_MI := marked_mi C (mark C ind (solver_w s) xi)\<rparr>)"
  define ss1 where "ss1 = butlast (sim_stats s) @ [f1 (last (sim_stats s))]"
  define ss2 where "ss2 = (if appends start k then butlast ss1 @ [f2 (last ss1)] else ss1)"
  have u1: "update_last f1 (sim_stats s) = Inr ss1"
    using assms by (simp add: update_last_nonempty ss1_def)
  have ne1: "ss1 \<noteq> []" by (simp add: ss1_def)
  have u2: "(if appends start k then update_last f2 ss1 else Inr ss1) = Inr ss2"
    using ne1 by (simp add: update_last_nonempty ss2_def)
  have d1: "map DOFS ss1 = map DOFS (sim_stats s)"
    unfolding ss1_def by (rule map_butlast_last [OF assms]) (simp add: f1_def)
  have d2: "map DOFS ss2 = map DOFS ss1"
    unfolding ss2_def using map_butlast_last [OF ne1, of DOFS f2] by (simp add: f2_def)
  have "mark_refine C P start k xi ind s =
      Inr (s\<lparr>sim_stats := ss2,
             solver_w := refine C (solver_w s)
               (select_markers C (do_refinement_RES P) (do_refinement_PROJ P)
                  (\<not> (\<not> do_refinement_MI P \<or> k = max_refinements P))
                  (mark C ind (solver_w s) xi)),
             calls := calls s @ [MARK k, REFINE k]\<rparr>)"
    using False u1 u2 unfolding f1_def f2_def
    by (simp add: mark_refine_def Let_def)
  then show ?thesis
    using False d1 d2 by simp
qed


lemma iteration_unfold:
  assumes "pcg_solve C (solver_w s) = (w1, zeta, d)"
    and "evaluateError C w1 zeta = (xi, ind)"
  shows "iteration C P start k s =
       (let s2 = s\<lparr>solver_w := w1,
                   sim_stats := (if appends start k then sim_stats s @ [new_stats d xi]
                                 else sim_stats s),
                   w_history := (case w_history s of
                                   None \<Rightarrow> None
                                 | Some hs \<Rightarrow> if appends start k then Some (hs @ [w1])
                                             else Some hs),
                   refinement := Some k,
                   calls := calls s @ [PCG_SOLVE k, ESTIMATE k]\<rparr>
        in if max_refinements P < k
           then Inr (s2\<lparr>messages := messages s2 @ [SKIPPING_REFINEMENT k]\<rparr>, True)
           else thenE (list_getitem (sim_stats s2) k) (\<lambda>r.
                  if num_le (max_dof P) (Num (of_int (DOFS r)))
                  then Inr (s2\<lparr>messages := messages s2 @ [REACHED_DOFS (DOFS r)]\<rparr>, True)
                  else if num_le xi (error_eps P)
                  then Inr (s2\<lparr>messages := messages s2 @ [REACHED_ACCURACY xi]\<rparr>, True)
                  else if k < max_refinements P
                  then thenE (mark_refine C P start k xi ind s2) (\<lambda>s3. Inr (s3, False))
                  else Inr (s2, False)))"
  unfolding iteration_def assms prod.case ..

lemma iteration_result:
  assumes k0: "0 \<le> k"
    and len: "k < int (length (sim_stats s)) + (if appends start k then 1 else 0)"
    and pc: "pcg_solve C (solver_w s) = (w1, zeta, d)"
    and ev: "evaluateError C w1 zeta = (xi, ind)"
    and ss2: "ss2 = (if appends start k then sim_stats s @ [new_stats d xi] else sim_stats s)"
    and v: "v = exit_checks P k (DOFS (ss2 ! nat k)) xi"
  shows "\<exists>s'. iteration C P start k s = Inr (s', v \<noteq> CONTINUE) \<and>
     messages s' = messages s @ verdict_messages v k (DOFS (ss2 ! nat k)) xi \<and>
     calls s' = calls s @ [PCG_SOLVE k, ESTIMATE k] @
       (if v = CONTINUE \<and> k < max_refinements P
        then (if do_uniform_refinement P then [REFINE k] else [MARK k, REFINE k]) else []) \<and>
     map DOFS (sim_stats s') = map DOFS ss2 \<and>
     (v \<noteq> CONTINUE \<or> max_refinements P \<le> k \<longrightarrow> sim_stats s' = ss2 \<and> solver_w s' = w1) \<and>
     w_history s' = (case w_history s of None \<Rightarrow> None
        | Some hs \<Rightarrow> Some (if appends start k then hs @ [w1] else hs)) \<and>
     refinement s' = Some k"
proof -
  define s2 where "s2 = s\<lparr>solver_w := w1,
      sim_stats := (if appends start k then sim_stats s @ [new_stats d xi] else sim_stats s),
      w_history := (case w_history s of None \<Rightarrow> None
         | Some hs \<Rightarrow> if appends start k then Some (hs @ [w1]) else Some hs),
      refinement := Some k, calls := calls s @ [PCG_SOLVE k, ESTIMATE k]\<rparr>"
  have st: "sim_stats s2 = ss2" "solver_w s2 = w1" "refinement s2 = Some k"
    "messages s2 = messages s" "calls s2 = calls s @ [PCG_SOLVE k, ESTIMATE k]"
    by (simp_all add: s2_def ss2)
  have wh: "w_history s2 = (case w_history s of None \<Rightarrow> None
        | Some hs \<Rightarrow> Some (if appends start k then hs @ [w1] else hs))"
    by (simp add: s2_def split: option.splits)
  have len2: "k < int (length ss2)"
    using len by (simp add: ss2 split: if_splits)
  have ne2: "sim_stats s2 \<noteq> []"
    using len2 k0 by (auto simp add: st)
  have get: "list_getitem (sim_stats s2) k = Inr (ss2 ! nat k)"
    using k0 len2 by (simp add: list_getitem_nonneg st)
  have it0: "iteration C P start k s =
     (if max_refinements P < k
           then Inr (s2\<lparr>messages := messages s2 @ [SKIPPING_REFINEMENT k]\<rparr>, True)
           else thenE (list_getitem (sim_stats s2) k) (\<lambda>r.
                  if num_le (max_dof P) (Num (of_int (DOFS r)))
                  then Inr (s2\<lparr>messages := messages s2 @ [REACHED_DOFS (DOFS r)]\<rparr>, True)
                  else if num_le xi (error_eps P)
                  then Inr (s2\<lparr>messages := messages s2 @ [REACHED_ACCURACY xi]\<rparr>, True)
                  else if k < max_refinements P
                  then thenE (mark_refine C P start k xi ind s2) (\<lambda>s3. Inr (s3, False))
                  else Inr (s2, False)))"
    unfolding iteration_unfold [OF pc ev] Let_def s2_def ..
  have it: "iteration C P start k s =
     (if max_refinements P < k
      then Inr (s2\<lparr>messages := messages s2 @ [SKIPPING_REFINEMENT k]\<rparr>, True)
      else if num_le (max_dof P) (Num (of_int (DOFS (ss2 ! nat k))))
      then Inr (s2\<lparr>messages := messages s2 @ [REACHED_DOFS (DOFS (ss2 ! nat k))]\<rparr>, True)
      else if num_le xi (error_eps P)
      then Inr (s2\<lparr>messages := messages s2 @ [REACHED_ACCURACY xi]\<rparr>, True)
      else if k < max_refinements P
      then thenE (mark_refine C P start k xi ind s2) (\<lambda>s3. Inr (s3, False))
      else Inr (s2, False))"
    unfolding it0 get thenE_Inr ..
  consider (a) "max_refinements P < k"
    | (b) "\<not> max_refinements P < k" "num_le (max_dof P) (Num (of_int (DOFS (ss2 ! nat k))))"
    | (c) "\<not> max_refinements P < k" "\<not> num_le (max_dof P) (Num (of_int (DOFS (ss2 ! nat k))))"
          "num_le xi (error_eps P)"
    | (d) "\<not> max_refinements P < k" "\<not> num_le (max_dof P) (Num (of_int (DOFS (ss2 ! nat k))))"
          "\<not> num_le xi (error_eps P)" "k < max_refinements P"
    | (e) "\<not> max_refinements P < k" "\<not> num_le (max_dof P) (Num (of_int (DOFS (ss2 ! nat k))))"
          "\<not> num_le xi (error_eps P)" "\<not> k < max_refinements P"
    by blast
  then show ?thesis
  proof cases
    case a
    then have "v = EXHAUSTED_REFINEMENTS" by (simp add: v exit_checks_def)
    then show ?thesis using a it wh
      by (simp add: verdict_messages_def st)
  next
    case b
    then have "v = EXHAUSTED_DOFS" by (simp add: v exit_checks_def)
    then show ?thesis using b it wh
      by (simp add: verdict_messages_def st)
  next
    case c
    then have "v = CONVERGED" by (simp add: v exit_checks_def)
    then show ?thesis using c it wh
      by (simp add: verdict_messages_def st)
  next
    case d
    then have vv: "v = CONTINUE" by (simp add: v exit_checks_def)
    from mark_refine_result [OF ne2, of C P start k xi ind]
    obtain s3 where m: "mark_refine C P start k xi ind s2 = Inr s3"
      and m1: "map DOFS (sim_stats s3) = map DOFS (sim_stats s2)"
      and m2: "w_history s3 = w_history s2" and m3: "refinement s3 = refinement s2"
      and m4: "messages s3 = messages s2"
      and m5: "calls s3 = calls s2 @ (if do_uniform_refinement P then [REFINE k] else [MARK k, REFINE k])"
      by blast
    have "iteration C P start k s = Inr (s3, False)"
      using d it m by simp
    then show ?thesis using vv d m1 m2 m3 m4 m5 wh
      by (simp add: verdict_messages_def st)
  next
    case e
    then have "v = CONTINUE" by (simp add: v exit_checks_def)
    then show ?thesis using e it wh
      by (simp add: verdict_messages_def st)
  qed
qed


subsection \<open>The loop\<close>

lemma solved_append: "solved (xs @ ys) = solved xs @ solved ys"
  by (induction xs rule: solved.induct) simp_all

lemma iteration_summary:
  assumes k0: "0 \<le> k"
    and len: "k < int (length (sim_stats s)) + (if appends start k then 1 else 0)"
  shows "\<exists>s' brk. iteration C P start k s = Inr (s', brk) \<and>
     solved (calls s') = solved (calls s) @ [k] \<and>
     length (sim_stats s') = length (sim_stats s) + (if appends start k then 1 else 0) \<and>
     (\<forall>hs. w_history s = Some hs \<longrightarrow>
        (\<exists>new. w_history s' = Some (hs @ new) \<and>
           length new = (if appends start k then 1 else 0))) \<and>
     (w_history s = None \<longrightarrow> w_history s' = None) \<and>
     refinement s' = Some k"
proof -
  obtain w1 zeta d where pc: "pcg_solve C (solver_w s) = (w1, zeta, d)"
    by (metis prod_cases3)
  obtain xi ind where ev: "evaluateError C w1 zeta = (xi, ind)"
    by (metis surj_pair)
  define ss2 where "ss2 = (if appends start k then sim_stats s @ [new_stats d xi] else sim_stats s)"
  define v where "v = exit_checks P k (DOFS (ss2 ! nat k)) xi"
  from iteration_result [OF k0 len pc ev ss2_def v_def]
  obtain s' where it: "iteration C P start k s = Inr (s', v \<noteq> CONTINUE)"
    and c: "calls s' = calls s @ [PCG_SOLVE k, ESTIMATE k] @
       (if v = CONTINUE \<and> k < max_refinements P
        then (if do_uniform_refinement P then [REFINE k] else [MARK k, REFINE k]) else [])"
    and d: "map DOFS (sim_stats s') = map DOFS ss2"
    and w: "w_history s' = (case w_history s of None \<Rightarrow> None
        | Some hs \<Rightarrow> Some (if appends start k then hs @ [w1] else hs))"
    and r: "refinement s' = Some k"
    by blast
  have l: "length (sim_stats s') = length ss2"
    using arg_cong [OF d, of length] by simp
  have sv: "solved (calls s') = solved (calls s) @ [k]"
    unfolding c by (simp add: solved_append)
  show ?thesis
    using it sv l w r by (auto simp add: ss2_def)
qed

lemma filter_appends_Cons:
  "k \<le> j \<Longrightarrow> length (filter (appends start) [k..j]) =
     (if appends start k then 1 else 0) + length (filter (appends start) [k + 1..j])"
  by (simp add: upto_rec1 [of k j])

lemma refinement_loop_result:
  assumes "n = nat (m - k + 1)" and "start \<le> k" and "0 \<le> k"
    and "k < int (length (sim_stats s)) + (if appends start k then 1 else 0)"
  shows "\<exists>s' j. refinement_loop C P start [k..m] s = Inr s' \<and>
     k - 1 \<le> j \<and> j \<le> max m (k - 1) \<and> (k \<le> m \<longrightarrow> k \<le> j) \<and>
     solved (calls s') = solved (calls s) @ [k..j] \<and>
     length (sim_stats s') =
       length (sim_stats s) + length (filter (appends start) [k..j]) \<and>
     (\<forall>hs. w_history s = Some hs \<longrightarrow>
        (\<exists>new. w_history s' = Some (hs @ new) \<and>
           length new = length (filter (appends start) [k..j]))) \<and>
     (w_history s = None \<longrightarrow> w_history s' = None) \<and>
     (k \<le> j \<longrightarrow> refinement s' = Some j \<and> j < int (length (sim_stats s'))) \<and>
     (j < k \<longrightarrow> s' = s)"
  using assms
proof (induction n arbitrary: k s)
  case 0
  then have "m < k" by simp
  then have "refinement_loop C P start [k..m] s = Inr s" by simp
  then show ?case using \<open>m < k\<close>
    by (intro exI [of _ s] exI [of _ "k - 1"]) simp
next
  case (Suc n)
  then have km: "k \<le> m" by simp
  have up: "[k..m] = k # [k + 1..m]" using km by (simp add: upto_rec1)
  from iteration_summary [OF Suc.prems(3,4), of C P]
  obtain s1 brk where it: "iteration C P start k s = Inr (s1, brk)"
    and sv: "solved (calls s1) = solved (calls s) @ [k]"
    and l: "length (sim_stats s1) = length (sim_stats s) + (if appends start k then 1 else 0)"
    and wS: "\<forall>hs. w_history s = Some hs \<longrightarrow>
        (\<exists>new. w_history s1 = Some (hs @ new) \<and>
           length new = (if appends start k then 1 else 0))"
    and wN: "w_history s = None \<longrightarrow> w_history s1 = None"
    and r: "refinement s1 = Some k"
    by (elim exE conjE) (rule that)
  have kl: "k < int (length (sim_stats s1))"
    using Suc.prems(4) l by (simp split: if_splits)
  show ?case
  proof (cases brk)
    case True
    have "refinement_loop C P start [k..m] s = Inr s1"
      unfolding up using it True by simp
    moreover have "length (filter (appends start) [k..k]) = (if appends start k then 1 else 0)"
      by simp
    ultimately show ?thesis
      using km sv l wS wN r kl
      by (intro exI [of _ s1] exI [of _ k]) simp
  next
    case False
    have step: "refinement_loop C P start [k..m] s = refinement_loop C P start [k + 1..m] s1"
      unfolding up using it False by simp
    have ap: "appends start (k + 1)"
      using Suc.prems(2) by (simp add: appends_def)
    have pre: "k + 1 < int (length (sim_stats s1)) + (if appends start (k + 1) then 1 else 0)"
      using kl ap by simp
    have n: "n = nat (m - (k + 1) + 1)" using Suc.prems(1) by simp
    have sk: "start \<le> k + 1" "0 \<le> k + 1" using Suc.prems(2,3) by simp_all
    have simp1: "k + 1 - 1 = k" by simp
    from Suc.IH [OF n sk pre, unfolded simp1]
    obtain s' j where lp: "refinement_loop C P start [k + 1..m] s1 = Inr s'"
      and j1: "k \<le> j" and j2: "j \<le> max m k" and j3: "k + 1 \<le> m \<longrightarrow> k + 1 \<le> j"
      and sv': "solved (calls s') = solved (calls s1) @ [k + 1..j]"
      and l': "length (sim_stats s') =
         length (sim_stats s1) + length (filter (appends start) [k + 1..j])"
      and wS': "\<forall>hs. w_history s1 = Some hs \<longrightarrow>
        (\<exists>new. w_history s' = Some (hs @ new) \<and>
           length new = length (filter (appends start) [k + 1..j]))"
      and wN': "w_history s1 = None \<longrightarrow> w_history s' = None"
      and r': "k + 1 \<le> j \<longrightarrow> refinement s' = Some j \<and> j < int (length (sim_stats s'))"
      and e': "j < k + 1 \<longrightarrow> s' = s1"
      by (elim exE conjE) (rule that)
    have upj: "[k..j] = k # [k + 1..j]" using j1 by (simp add: upto_rec1)
    have cnt: "length (filter (appends start) [k..j]) =
       (if appends start k then 1 else 0) + length (filter (appends start) [k + 1..j])"
      by (rule filter_appends_Cons [OF j1])
    have jm: "j \<le> max m (k - 1)" using j2 km by simp
    have c1: "solved (calls s') = solved (calls s) @ [k..j]"
      using sv' sv upj by simp
    have c2: "length (sim_stats s') = length (sim_stats s) + length (filter (appends start) [k..j])"
      using l' l cnt by simp
    have c3: "\<forall>hs. w_history s = Some hs \<longrightarrow>
        (\<exists>new. w_history s' = Some (hs @ new) \<and>
           length new = length (filter (appends start) [k..j]))"
    proof (intro allI impI)
      fix hs assume h: "w_history s = Some hs"
      with wS obtain n1 where a: "w_history s1 = Some (hs @ n1)"
        and b: "length n1 = (if appends start k then 1 else 0)" by blast
      with wS' obtain n2 where a2: "w_history s' = Some ((hs @ n1) @ n2)"
        and b2: "length n2 = length (filter (appends start) [k + 1..j])" by blast
      show "\<exists>new. w_history s' = Some (hs @ new) \<and>
           length new = length (filter (appends start) [k..j])"
        using a2 b b2 cnt by (intro exI [of _ "n1 @ n2"]) simp
    qed
    have c4: "w_history s = None \<longrightarrow> w_history s' = None"
      using wN wN' by simp
    have c5: "refinement s' = Some j \<and> j < int (length (sim_stats s'))"
    proof (cases "j = k")
      case True
      then have "s' = s1" using e' by simp
      then show ?thesis using True r kl by simp
    next
      case False
      then show ?thesis using r' j1 by simp
    qed
    show ?thesis
      using step lp j1 jm c1 c2 c3 c4 c5
      by (intro exI [of _ s'] exI [of _ j]) simp
  qed
qed


subsection \<open>A fresh run and a resumed run\<close>

lemma pcg_solve_eq:
  "pcg C w = (w1, zeta) \<Longrightarrow> pcg_solve C w = (w1, zeta, dofs C w)"
  by (simp add: pcg_solve_def)

lemma final_message_zero: "refinement s = Some 0 \<Longrightarrow> final_message s = Inr s"
  by (simp add: final_message_def)

lemma fresh_first_iteration:
  assumes pc: "pcg C w0 = (w1, zeta)"
    and ev: "evaluateError C w1 zeta = (xi, ind)"
    and v: "v = exit_checks P 0 (dofs C w0) xi"
  shows "\<exists>s'. iteration C P 0 0 (initial_state w0 hist []) = Inr (s', v \<noteq> CONTINUE) \<and>
     messages s' = verdict_messages v 0 (dofs C w0) xi \<and>
     calls s' = [PCG_SOLVE 0, ESTIMATE 0] @
       (if v = CONTINUE \<and> 0 < max_refinements P
        then (if do_uniform_refinement P then [REFINE 0] else [MARK 0, REFINE 0]) else []) \<and>
     (v \<noteq> CONTINUE \<or> max_refinements P \<le> 0 \<longrightarrow>
        sim_stats s' = [new_stats (dofs C w0) xi] \<and> solver_w s' = w1) \<and>
     w_history s' = (case hist of None \<Rightarrow> None | Some hs \<Rightarrow> Some (hs @ [w1])) \<and>
     refinement s' = Some 0"
proof -
  have a: "appends 0 0" by (simp add: appends_def)
  have len: "(0::int) < int (length (sim_stats (initial_state w0 hist []))) +
      (if appends 0 0 then 1 else 0)"
    using a by simp
  have pc': "pcg_solve C (solver_w (initial_state w0 hist [])) = (w1, zeta, dofs C w0)"
    using pcg_solve_eq [OF pc] by (simp add: initial_state_def)
  have ss2: "[new_stats (dofs C w0) xi] =
     (if appends 0 0 then sim_stats (initial_state w0 hist []) @ [new_stats (dofs C w0) xi]
      else sim_stats (initial_state w0 hist []))"
    using a by (simp add: initial_state_def)
  have v': "v = exit_checks P 0 (DOFS ([new_stats (dofs C w0) xi] ! nat 0)) xi"
    using v by (simp add: new_stats_def)
  have st: "messages (initial_state w0 hist []) = []" "calls (initial_state w0 hist []) = []"
    "w_history (initial_state w0 hist []) = hist"
    by (simp_all add: initial_state_def)
  have d: "DOFS ([new_stats (dofs C w0) xi] ! nat 0) = dofs C w0"
    by (simp add: new_stats_def)
  have w: "(case hist of None \<Rightarrow> None | Some hs \<Rightarrow> Some (if appends 0 0 then hs @ [w1] else hs))
     = (case hist of None \<Rightarrow> None | Some hs \<Rightarrow> Some (hs @ [w1]))"
    using a by (simp split: option.splits)
  from iteration_result [OF order_refl len pc' ev ss2 v', of ]
  show ?thesis
    unfolding st d w append_Nil by blast
qed


lemma start_iteration_Nil: "start_iteration [] = 0"
  by (simp add: start_iteration_def)

lemma loop_single:
  assumes "iteration C P start k s = Inr (s', brk)"
  shows "refinement_loop C P start [k] s = Inr s'"
  using assms by simp

lemma loop_break:
  assumes "iteration C P start k s = Inr (s', True)"
  shows "refinement_loop C P start (k # ks) s = Inr s'"
  using assms by simp

lemma start_iteration_bounds:
  "0 \<le> start_iteration ss"
  "start_iteration ss <
     int (length ss) + (if appends (start_iteration ss) (start_iteration ss) then 1 else 0)"
  by (auto simp add: start_iteration_def appends_def max_def)

lemma final_message_result:
  assumes "refinement s = None \<or> (\<exists>j. refinement s = Some j \<and> 0 \<le> j \<and> j < int (length (sim_stats s)))"
  shows "\<exists>s'. final_message s = Inr s' \<and> calls s' = calls s \<and> sim_stats s' = sim_stats s \<and>
     w_history s' = w_history s \<and> solver_w s' = solver_w s"
  using assms by (auto simp add: final_message_def list_getitem_nonneg)

lemma run_solver_result:
  "\<exists>s' j. run_solver C P w0 hist ss = Inr s' \<and>
     start_iteration ss - 1 \<le> j \<and> j \<le> max (max_refinements P) (start_iteration ss - 1) \<and>
     (start_iteration ss \<le> max_refinements P \<longrightarrow> start_iteration ss \<le> j) \<and>
     solved (calls s') = [start_iteration ss..j] \<and>
     length (sim_stats s') =
       length ss + length (filter (appends (start_iteration ss)) [start_iteration ss..j]) \<and>
     (\<forall>hs. hist = Some hs \<longrightarrow>
        (\<exists>new. w_history s' = Some (hs @ new) \<and>
           length new = length (filter (appends (start_iteration ss)) [start_iteration ss..j]))) \<and>
     (hist = None \<longrightarrow> w_history s' = None)"
proof -
  define s0 where "s0 = initial_state w0 hist ss"
  have st: "sim_stats s0 = ss" "w_history s0 = hist" "calls s0 = []" "refinement s0 = None"
    by (simp_all add: s0_def initial_state_def)
  have pre: "start_iteration ss < int (length (sim_stats s0)) +
      (if appends (start_iteration ss) (start_iteration ss) then 1 else 0)"
    unfolding st by (rule start_iteration_bounds)
  from refinement_loop_result [where m = "max_refinements P" and C = C and P = P,
      OF refl order_refl start_iteration_bounds(1) pre]
  obtain s1 j where lp: "refinement_loop C P (start_iteration ss)
        [start_iteration ss..max_refinements P] s0 = Inr s1"
    and j1: "start_iteration ss - 1 \<le> j"
    and j2: "j \<le> max (max_refinements P) (start_iteration ss - 1)"
    and j3: "start_iteration ss \<le> max_refinements P \<longrightarrow> start_iteration ss \<le> j"
    and sv: "solved (calls s1) = solved (calls s0) @ [start_iteration ss..j]"
    and l: "length (sim_stats s1) = length (sim_stats s0) +
        length (filter (appends (start_iteration ss)) [start_iteration ss..j])"
    and wS: "\<forall>hs. w_history s0 = Some hs \<longrightarrow>
        (\<exists>new. w_history s1 = Some (hs @ new) \<and>
           length new = length (filter (appends (start_iteration ss)) [start_iteration ss..j]))"
    and wN: "w_history s0 = None \<longrightarrow> w_history s1 = None"
    and r: "start_iteration ss \<le> j \<longrightarrow>
        refinement s1 = Some j \<and> j < int (length (sim_stats s1))"
    and e: "j < start_iteration ss \<longrightarrow> s1 = s0"
    by (elim exE conjE) (rule that)
  have "refinement s1 = None \<or>
      (\<exists>j. refinement s1 = Some j \<and> 0 \<le> j \<and> j < int (length (sim_stats s1)))"
  proof (cases "start_iteration ss \<le> j")
    case True
    then show ?thesis using r start_iteration_bounds(1) [of ss] by auto
  next
    case False
    then show ?thesis using e st by simp
  qed
  from final_message_result [OF this]
  obtain s' where fm: "final_message s1 = Inr s'" and c: "calls s' = calls s1"
    and ss': "sim_stats s' = sim_stats s1" and w': "w_history s' = w_history s1"
    by blast
  have "run_solver C P w0 hist ss = Inr s'"
    unfolding run_solver_def s0_def [symmetric] lp using fm by simp
  then show ?thesis
    using j1 j2 j3 sv l wS wN unfolding c [symmetric] ss' [symmetric] w' [symmetric] st
    by (intro exI [of _ s'] exI [of _ j]) simp
qed

section \<open>The claims about the adaptive solver\<close>

lemma example_collaborators_facts:
  "pcg example_collaborators 1 = (1, Num (1 / 2))"
  "dofs example_collaborators 1 = 10"
  "evaluateError example_collaborators 1 (Num (1 / 2)) = (Num (1 / 2), ())"
  "pcg_solve example_collaborators 1 = (1, Num (1 / 2), 10)"
  by (simp_all add: example_collaborators_def pcg_solve_def)

lemma example_params_facts:
  "max_refinements example_params = 2"
  "max_dof example_params = Num 25"
  "error_eps example_params = Num (1 / 100)"
  "do_uniform_refinement example_params = False"
  by (simp_all add: example_params_def)


text \<open>
  C2. In every iteration \<open>k\<close> of the refinement loop, after the solve and the estimate, the
  exit checks are evaluated in this order: \<open>k > max_refinements\<close>, then
  \<open>DOFS >= max_dof\<close>, then \<open>xi <= error_eps\<close>; here \<open>DOFS\<close> is read from
  \<open>sim_stats[k]\<close>. The loop is left exactly when one of them fires, with the message of the
  first that fires; \<open>Marking.mark\<close> (unless the refinement is uniform) and \<open>Marking.refine\<close>
  are called exactly when none fires and \<open>k < max_refinements\<close>. In particular a fresh run
  with \<open>max_refinements >= 0\<close> and \<open>max_dof\<close> not above the number of degrees of freedom of
  the initial \<open>w0\<close> returns after the solve and the estimate of iteration 0, with the
  message of the second check and one statistics record whose marking fields are zero.
\<close>

theorem exit_checks_in_order:
  "(0 \<le> k \<and> k < int (length (sim_stats s)) + (if appends start k then 1 else 0) \<and>
    pcg_solve C (solver_w s) = (w1, zeta, d) \<and> evaluateError C w1 zeta = (xi, ind) \<and>
    r = (if appends start k then sim_stats s @ [new_stats d xi] else sim_stats s) ! nat k \<longrightarrow>
    (\<exists>s'. iteration C P start k s = Inr (s', exit_checks P k (DOFS r) xi \<noteq> CONTINUE) \<and>
       messages s' = messages s @ verdict_messages (exit_checks P k (DOFS r) xi) k (DOFS r) xi \<and>
       calls s' = calls s @ [PCG_SOLVE k, ESTIMATE k] @
         (if exit_checks P k (DOFS r) xi = CONTINUE \<and> k < max_refinements P
          then (if do_uniform_refinement P then [REFINE k] else [MARK k, REFINE k])
          else []))) \<and>
   (0 \<le> max_refinements P \<and> num_le (max_dof P) (Num (of_int (dofs C w0))) \<and>
    (hist = None \<or> hist = Some []) \<and>
    pcg C w0 = (w1', zeta') \<and> evaluateError C w1' zeta' = (xi', ind') \<longrightarrow>
    (\<exists>s'. AdaptiveSolver C P w0 hist None = Inr s' \<and>
       calls s' = [PCG_SOLVE 0, ESTIMATE 0] \<and>
       messages s' = [REACHED_DOFS (dofs C w0)] \<and>
       sim_stats s' = [new_stats (dofs C w0) xi']))"
proof (intro conjI impI)
  assume a: "0 \<le> k \<and> k < int (length (sim_stats s)) + (if appends start k then 1 else 0) \<and>
    pcg_solve C (solver_w s) = (w1, zeta, d) \<and> evaluateError C w1 zeta = (xi, ind) \<and>
    r = (if appends start k then sim_stats s @ [new_stats d xi] else sim_stats s) ! nat k"
  then have k0: "0 \<le> k"
    and len: "k < int (length (sim_stats s)) + (if appends start k then 1 else 0)"
    and pc: "pcg_solve C (solver_w s) = (w1, zeta, d)"
    and ev: "evaluateError C w1 zeta = (xi, ind)"
    and r: "r = (if appends start k then sim_stats s @ [new_stats d xi] else sim_stats s) ! nat k"
    by simp_all
  from iteration_result [OF k0 len pc ev refl refl, of P]
  show "\<exists>s'. iteration C P start k s = Inr (s', exit_checks P k (DOFS r) xi \<noteq> CONTINUE) \<and>
       messages s' = messages s @ verdict_messages (exit_checks P k (DOFS r) xi) k (DOFS r) xi \<and>
       calls s' = calls s @ [PCG_SOLVE k, ESTIMATE k] @
         (if exit_checks P k (DOFS r) xi = CONTINUE \<and> k < max_refinements P
          then (if do_uniform_refinement P then [REFINE k] else [MARK k, REFINE k])
          else [])"
    unfolding r by blast
next
  assume b: "0 \<le> max_refinements P \<and> num_le (max_dof P) (Num (of_int (dofs C w0))) \<and>
    (hist = None \<or> hist = Some []) \<and>
    pcg C w0 = (w1', zeta') \<and> evaluateError C w1' zeta' = (xi', ind')"
  then have m: "0 \<le> max_refinements P"
    and dof: "num_le (max_dof P) (Num (of_int (dofs C w0)))"
    and h: "hist = None \<or> hist = Some []"
    and pc: "pcg C w0 = (w1', zeta')" and ev: "evaluateError C w1' zeta' = (xi', ind')"
    by simp_all
  have v: "exit_checks P 0 (dofs C w0) xi' = EXHAUSTED_DOFS"
    using m dof by (simp add: exit_checks_def)
  from fresh_first_iteration [OF pc ev refl, of P hist]
  obtain s' where it: "iteration C P 0 0 (initial_state w0 hist []) = Inr (s', True)"
    and ms: "messages s' = [REACHED_DOFS (dofs C w0)]"
    and cs: "calls s' = [PCG_SOLVE 0, ESTIMATE 0]"
    and ss: "sim_stats s' = [new_stats (dofs C w0) xi']"
    and rf: "refinement s' = Some 0"
    unfolding v by (auto simp add: verdict_messages_def)
  have up: "[0..max_refinements P] = 0 # [1..max_refinements P]"
    using m by (simp add: upto_rec1)
  have "run_solver C P w0 hist [] = Inr s'"
    unfolding run_solver_def start_iteration_Nil up loop_break [OF it]
    by (simp add: final_message_zero [OF rf])
  then have "AdaptiveSolver C P w0 hist None = Inr s'"
    using h by (auto simp add: AdaptiveSolver_def)
  then show "\<exists>s'. AdaptiveSolver C P w0 hist None = Inr s' \<and>
       calls s' = [PCG_SOLVE 0, ESTIMATE 0] \<and>
       messages s' = [REACHED_DOFS (dofs C w0)] \<and>
       sim_stats s' = [new_stats (dofs C w0) xi']"
    using ms cs ss by simp
qed

theorem exit_checks_in_order_witness:
  "pcg_solve example_collaborators (solver_w (initial_state 1 None [])) = (1, Num (1 / 2), 10) \<and>
   evaluateError example_collaborators 1 (Num (1 / 2)) = (Num (1 / 2), ()) \<and>
   exit_checks example_params 0 10 (Num (1 / 2)) = CONTINUE \<and>
   (\<exists>s'. iteration example_collaborators example_params 0 0 (initial_state 1 None [])
        = Inr (s', False) \<and>
      messages s' = [] \<and> calls s' = [PCG_SOLVE 0, ESTIMATE 0, MARK 0, REFINE 0]) \<and>
   num_le (max_dof (example_params\<lparr>max_dof := Num 5\<rparr>))
     (Num (of_int (dofs example_collaborators 1))) \<and>
   (\<exists>s'. AdaptiveSolver example_collaborators (example_params\<lparr>max_dof := Num 5\<rparr>) 1 None None
        = Inr s' \<and>
      calls s' = [PCG_SOLVE 0, ESTIMATE 0] \<and> messages s' = [REACHED_DOFS 10] \<and>
      sim_stats s' = [new_stats 10 (Num (1 / 2))])"
proof -
  have h1: "(0::int) \<le> 0 \<and>
    0 < int (length (sim_stats (initial_state (1::nat) None []))) + (if appends 0 0 then 1 else 0) \<and>
    pcg_solve example_collaborators (solver_w (initial_state 1 None [])) = (1, Num (1 / 2), 10) \<and>
    evaluateError example_collaborators 1 (Num (1 / 2)) = (Num (1 / 2), ()) \<and>
    new_stats 10 (Num (1 / 2)) =
      (if appends 0 0 then sim_stats (initial_state (1::nat) None []) @ [new_stats 10 (Num (1 / 2))]
       else sim_stats (initial_state (1::nat) None [])) ! nat 0"
    by (simp add: example_collaborators_def pcg_solve_def initial_state_def appends_def)
  have v: "exit_checks example_params 0 10 (Num (1 / 2)) = CONTINUE"
    by (simp add: exit_checks_def example_params_facts)
  have d: "DOFS (new_stats 10 (Num (1 / 2))) = 10"
    by (simp add: new_stats_def)
  have st: "messages (initial_state (1::nat) None []) = []"
    "calls (initial_state (1::nat) None []) = []"
    by (simp_all add: initial_state_def)
  have h2: "0 \<le> max_refinements (example_params\<lparr>max_dof := Num 5\<rparr>) \<and>
    num_le (max_dof (example_params\<lparr>max_dof := Num 5\<rparr>))
      (Num (of_int (dofs example_collaborators 1))) \<and>
    ((None :: nat list option) = None \<or> (None :: nat list option) = Some []) \<and>
    pcg example_collaborators 1 = (1, Num (1 / 2)) \<and>
    evaluateError example_collaborators 1 (Num (1 / 2)) = (Num (1 / 2), ())"
    by (simp add: example_collaborators_def pcg_solve_def example_params_facts)
  have first: "\<exists>s'. iteration example_collaborators example_params 0 0 (initial_state 1 None [])
        = Inr (s', False) \<and>
      messages s' = [] \<and> calls s' = [PCG_SOLVE 0, ESTIMATE 0, MARK 0, REFINE 0]"
    using exit_checks_in_order [where k = 0 and s = "initial_state (1::nat) None []"
        and start = 0 and C = example_collaborators and ?w1.0 = 1 and zeta = "Num (1 / 2)"
        and d = 10 and xi = "Num (1 / 2)" and ind = "()" and r = "new_stats 10 (Num (1 / 2))"
        and P = example_params, THEN conjunct1, rule_format, OF h1]
    unfolding d v st by (simp add: verdict_messages_def example_params_facts)
  have second: "\<exists>s'. AdaptiveSolver example_collaborators (example_params\<lparr>max_dof := Num 5\<rparr>) 1
        None None = Inr s' \<and>
      calls s' = [PCG_SOLVE 0, ESTIMATE 0] \<and> messages s' = [REACHED_DOFS 10] \<and>
      sim_stats s' = [new_stats 10 (Num (1 / 2))]"
    using exit_checks_in_order [where C = example_collaborators
        and P = "example_params\<lparr>max_dof := Num 5\<rparr>" and ?w0.0 = 1 and hist = None
        and ?w1' = 1 and zeta' = "Num (1 / 2)" and xi' = "Num (1 / 2)" and ind' = "()",
        THEN conjunct2, rule_format, OF h2]
    by (simp add: example_collaborators_def pcg_solve_def)
  show ?thesis
    using h1 v first h2 second by blast
qed

text \<open>
  C8. For every \<open>w0\<close> (so also for one with only the zero multi-index active), a fresh run
  of \<open>AdaptiveSolver\<close> with \<open>max_refinements = 0\<close> and \<open>error_eps = 0\<close> returns; it calls
  \<open>pcg_solve\<close> once and \<open>ResidualEstimator.evaluateError\<close> once, both in iteration 0, calls
  neither \<open>Marking.mark\<close> nor \<open>Marking.refine\<close>, and returns the solution of that solve and
  a list \<open>sim_stats\<close> of exactly one record.
\<close>

theorem single_solve_without_refinement:
  assumes pc: "pcg C w0 = (w1, zeta)" and ev: "evaluateError C w1 zeta = (xi, ind)"
    and h: "hist = None \<or> hist = Some []"
  shows "\<exists>s'. AdaptiveSolver C (P\<lparr>max_refinements := 0, error_eps := Num 0\<rparr>) w0 hist None = Inr s' \<and>
     calls s' = [PCG_SOLVE 0, ESTIMATE 0] \<and>
     sim_stats s' = [new_stats (dofs C w0) xi] \<and>
     solver_w s' = w1"
proof -
  define P' where "P' = P\<lparr>max_refinements := 0, error_eps := Num 0\<rparr>"
  have m: "max_refinements P' = 0" by (simp add: P'_def)
  from fresh_first_iteration [OF pc ev refl, of P' hist]
  obtain s' brk where it: "iteration C P' 0 0 (initial_state w0 hist []) = Inr (s', brk)"
    and cs: "calls s' = [PCG_SOLVE 0, ESTIMATE 0]"
    and ss: "sim_stats s' = [new_stats (dofs C w0) xi]"
    and w: "solver_w s' = w1"
    and rf: "refinement s' = Some 0"
    unfolding m by auto
  have up: "[0..max_refinements P'] = [0]"
    unfolding m by (simp add: upto_rec1)
  have "run_solver C P' w0 hist [] = Inr s'"
    unfolding run_solver_def start_iteration_Nil up loop_single [OF it]
    by (simp add: final_message_zero [OF rf])
  then have "AdaptiveSolver C P' w0 hist None = Inr s'"
    using h by (auto simp add: AdaptiveSolver_def)
  then show ?thesis
    unfolding P'_def using cs ss w by simp
qed


theorem single_solve_without_refinement_witness:
  "pcg example_collaborators 1 = (1, Num (1 / 2)) \<and>
   evaluateError example_collaborators 1 (Num (1 / 2)) = (Num (1 / 2), ()) \<and>
   (\<exists>s'. AdaptiveSolver example_collaborators
        (example_params\<lparr>max_refinements := 0, error_eps := Num 0\<rparr>) 1 (Some []) None = Inr s' \<and>
      calls s' = [PCG_SOLVE 0, ESTIMATE 0] \<and>
      sim_stats s' = [new_stats 10 (Num (1 / 2))] \<and> solver_w s' = 1)"
proof -
  have pc: "pcg example_collaborators 1 = (1, Num (1 / 2))"
    by (simp add: example_collaborators_def pcg_solve_def)
  have ev: "evaluateError example_collaborators 1 (Num (1 / 2)) = (Num (1 / 2), ())"
    by (simp add: example_collaborators_def pcg_solve_def)
  have h: "Some ([] :: nat list) = None \<or> Some ([] :: nat list) = Some []"
    by simp
  show ?thesis
    using single_solve_without_refinement [OF pc ev h, of example_params] pc ev
    by (simp add: example_collaborators_def pcg_solve_def)
qed





lemma filter_appends_above:
  "start < k \<Longrightarrow> filter (appends start) [k..j] = [k..j]"
  by (simp add: filter_id_conv appends_def)

lemma appended_count:
  assumes "start_iteration ss \<le> j"
  shows "int (length ss + length (filter (appends (start_iteration ss)) [start_iteration ss..j])) =
     (if length ss = 1 then j + 2 else j + 1)"
proof (cases "length ss \<le> 1")
  case True
  then have s0: "start_iteration ss = 0" by (simp add: start_iteration_def)
  have j0: "0 \<le> j" using assms s0 by simp
  have "filter (appends 0) [0..j] = 0 # filter (appends 0) [1..j]"
    using j0 by (simp add: upto_rec1 [of 0 j] appends_def)
  then have "length (filter (appends 0) [0..j]) = nat (j + 1)"
    using j0 by (simp add: filter_appends_above)
  moreover have "length ss = 0 \<or> length ss = 1" using True by arith
  ultimately show ?thesis
    using j0 unfolding s0 by auto
next
  case False
  then have s1: "start_iteration ss = int (length ss) - 1" and pos: "0 < start_iteration ss"
    by (simp_all add: start_iteration_def)
  have "filter (appends (start_iteration ss)) [start_iteration ss..j] =
      filter (appends (start_iteration ss)) [start_iteration ss + 1..j]"
    using assms pos by (simp add: upto_rec1 [of "start_iteration ss" j] appends_def)
  then have "length (filter (appends (start_iteration ss)) [start_iteration ss..j]) =
      nat (j - start_iteration ss)"
    by (simp add: filter_appends_above)
  then show ?thesis
    using False assms s1 by simp
qed

text \<open>
  The number of records after a resumed run that solved the iterations up to \<open>j\<close>. A history
  of no record or of two and more ends with \<open>j + 1\<close> records, record \<open>k\<close> for iteration
  \<open>k\<close>. A history of exactly one record has \<open>start_iteration = 0\<close>, so the guard
  \<open>refinement == 0\<close> holds in the first iteration of the resumed run: iteration 0 is solved
  again and gets a second record and a second history entry, and the run ends with
  \<open>j + 2\<close> records, both lists alike.
\<close>

lemma record_index_after_resume:
  "\<exists>s' j. run_solver C P w0 hist ss = Inr s' \<and> solved (calls s') = [start_iteration ss..j] \<and>
     (start_iteration ss \<le> j \<longrightarrow>
        int (length (sim_stats s')) = (if length ss = 1 then j + 2 else j + 1))"
proof -
  from run_solver_result [of C P w0 hist ss]
  obtain s' j where "run_solver C P w0 hist ss = Inr s'"
    and "solved (calls s') = [start_iteration ss..j]"
    and "length (sim_stats s') =
       length ss + length (filter (appends (start_iteration ss)) [start_iteration ss..j])"
    by blast
  then show ?thesis
    using appended_count [of ss j] by (intro exI [of _ s'] exI [of _ j]) simp
qed

end
